theory Spec2Isabelle
  imports Complex_Main "HOL-Library.Sublist" "HOL-Library.Char_ord" "HOL-Library.List_Lexorder"
    "HOL-Library.Log_Nat"
begin

section \<open>Strings\<close>

text \<open>
  Source strings are modelled as \<^typ>\<open>string\<close>, a list of 8-bit characters. The
  string operations of the JavaScript runtime that the code calls are written out here.
\<close>

definition lower_char :: "char \<Rightarrow> char" where
  "lower_char c =
     (let n = (of_char c :: nat) in if 65 \<le> n \<and> n \<le> 90 then char_of (n + 32) else c)"

text \<open>\<open>toLowerCase\<close> on ASCII text: the letters A to Z are mapped, all else is kept.\<close>

definition toLowerCase :: "string \<Rightarrow> string" where
  "toLowerCase s = map lower_char s"

definition startsWith :: "string \<Rightarrow> string \<Rightarrow> bool" where
  "startsWith s p = (take (length p) s = p)"

definition endsWith :: "string \<Rightarrow> string \<Rightarrow> bool" where
  "endsWith s p = (length p \<le> length s \<and> drop (length s - length p) s = p)"

text \<open>\<open>s.includes(sub)\<close>: \<open>sub\<close> occurs in \<open>s\<close> as a contiguous run.\<close>

fun includes_str :: "string \<Rightarrow> string \<Rightarrow> bool" where
  "includes_str [] sub = (sub = [])"
| "includes_str (c # cs) sub = (startsWith (c # cs) sub \<or> includes_str cs sub)"

section \<open>Parsed design nodes (parsers/figma-parser.ts)\<close>

datatype FlexDirection = Row | Column

record LayoutInfo =
  width :: real
  height :: real
  layout_x :: real
  layout_y :: real
  constraints :: "(string \<times> string) option"
  flexDirection :: "FlexDirection option"

record ShadowInfo =
  shadow_type :: string
  shadow_color :: string
  shadow_x :: real
  shadow_y :: real
  shadow_blur :: real

record FillInfo =
  fill_type :: string
  fill_color :: "string option"
  fill_opacity :: "real option"

record StylingInfo =
  backgroundColor :: "string option"
  borderColor :: "string option"
  borderWidth :: "real option"
  borderRadius :: "real option"
  opacity :: "real option"
  shadows :: "ShadowInfo list option"
  fills :: "FillInfo list option"

record ContentInfo =
  content_text :: "string option"
  fontFamily :: "string option"
  fontSize :: "real option"
  fontWeight :: "real option"
  textAlign :: "string option"
  textColor :: "string option"

datatype PropValue = PBool bool | PNum real | PStr string

record ComponentProperty =
  prop_name :: string
  prop_value :: PropValue
  prop_type :: string

text \<open>
  \<open>ParsedComponent\<close>. The generator reads its argument defensively
  (\<open>figmaNode.name?.toLowerCase()\<close>, \<open>figmaNode.styling?.borderWidth\<close>,
  \<open>if (figmaComponent.layout)\<close>), so the fields it guards are optional here; the
  parser always fills them.
\<close>

datatype ParsedComponent =
  ParsedComponent
    (pc_id: string)
    (pc_name: "string option")
    (pc_type: string)
    (pc_properties: "ComponentProperty list")
    (pc_children: "ParsedComponent list option")
    (pc_layout: "LayoutInfo option")
    (pc_styling: "StylingInfo option")
    (pc_content: "ContentInfo option")

section \<open>Mapping engine (generators/code-generator.ts)\<close>

record MappingRule =
  condition :: string
  action :: string
  weight :: int

record ComponentMapping =
  figmaType :: string
  figmaName :: "string option"
  antdComponent :: string
  confidence :: int
  rules :: "MappingRule list"

text \<open>\<open>figmaNode.name?.toLowerCase().includes(w) || false\<close>\<close>

definition name_contains :: "ParsedComponent \<Rightarrow> string \<Rightarrow> bool" where
  "name_contains figmaNode w =
     (case pc_name figmaNode of None \<Rightarrow> False | Some n \<Rightarrow> includes_str (toLowerCase n) w)"

text \<open>JavaScript truthiness of an optional string, number and array length.\<close>

definition truthy_str :: "string option \<Rightarrow> bool" where
  "truthy_str s = (case s of None \<Rightarrow> False | Some v \<Rightarrow> v \<noteq> [])"

definition truthy_num :: "real option \<Rightarrow> bool" where
  "truthy_num n = (case n of None \<Rightarrow> False | Some v \<Rightarrow> v \<noteq> 0)"

definition truthy_length :: "'a list option \<Rightarrow> bool" where
  "truthy_length xs = (case xs of None \<Rightarrow> False | Some v \<Rightarrow> v \<noteq> [])"

definition evaluateRule :: "MappingRule \<Rightarrow> ParsedComponent \<Rightarrow> string option \<Rightarrow> bool" where
  "evaluateRule rule figmaNode context =
     (if condition rule = ''name_contains_button'' then name_contains figmaNode ''button''
      else if condition rule = ''name_contains_input'' then name_contains figmaNode ''input''
      else if condition rule = ''name_contains_card'' then name_contains figmaNode ''card''
      else if condition rule = ''has_text_content'' then
        (case pc_content figmaNode of None \<Rightarrow> False | Some c \<Rightarrow> truthy_str (content_text c))
      else if condition rule = ''has_border'' then
        (case pc_styling figmaNode of None \<Rightarrow> False | Some s \<Rightarrow> truthy_num (borderWidth s))
      else if condition rule = ''has_background'' then
        (case pc_styling figmaNode of None \<Rightarrow> False
         | Some s \<Rightarrow> truthy_str (backgroundColor s) \<or> truthy_length (fills s))
      else if condition rule = ''has_shadow'' then
        (case pc_styling figmaNode of None \<Rightarrow> False | Some s \<Rightarrow> truthy_length (shadows s))
      else if condition rule = ''is_text_node'' then pc_type figmaNode = ''TEXT''
      else if condition rule = ''rectangular_shape'' then
        (case pc_layout figmaNode of None \<Rightarrow> False | Some l \<Rightarrow> width l > height l)
      else if condition rule = ''contains_multiple_elements'' then
        (case pc_children figmaNode of None \<Rightarrow> False | Some cs \<Rightarrow> length cs > 1)
      else False)"

text \<open>The accumulated confidence of one registry entry, before the cap.\<close>

definition accumulate :: "ComponentMapping \<Rightarrow> ParsedComponent \<Rightarrow> string option \<Rightarrow> int" where
  "accumulate mapping figmaNode context =
     (let nodeName = (case pc_name figmaNode of None \<Rightarrow> [] | Some n \<Rightarrow> toLowerCase n);
          c0 = (if figmaType mapping = pc_type figmaNode then 30 else 0);
          c1 = (if (case figmaName mapping of None \<Rightarrow> False
                    | Some fname \<Rightarrow> fname \<noteq> [] \<and> includes_str nodeName fname)
                then c0 + 40 else c0)
      in foldl (\<lambda>c rule. if evaluateRule rule figmaNode context then c + weight rule else c)
           c1 (rules mapping))"

text \<open>The loop over the registry: the retained candidates, in registration order.\<close>

fun candidates ::
  "ComponentMapping list \<Rightarrow> ParsedComponent \<Rightarrow> string option \<Rightarrow> ComponentMapping list" where
  "candidates [] figmaNode context = []"
| "candidates (mapping # ms) figmaNode context =
     (let c = accumulate mapping figmaNode context
      in (if c > 20 then [mapping\<lparr>confidence := min c 100\<rparr>] else [])
         @ candidates ms figmaNode context)"

text \<open>
  \<open>mappings.sort((a, b) => b.confidence - a.confidence)\<close>: \<open>Array.prototype.sort\<close> is a
  stable sort, here by descending confidence.
\<close>

definition sort_by_confidence :: "ComponentMapping list \<Rightarrow> ComponentMapping list" where
  "sort_by_confidence ms = sort_key (\<lambda>m. - confidence m) ms"

definition getComponentMapping ::
  "ComponentMapping list \<Rightarrow> ParsedComponent \<Rightarrow> string option \<Rightarrow> ComponentMapping list" where
  "getComponentMapping componentMappings figmaNode context =
     sort_by_confidence (candidates componentMappings figmaNode context)"

definition mk_rule :: "string \<Rightarrow> string \<Rightarrow> int \<Rightarrow> MappingRule" where
  "mk_rule c a w = \<lparr>condition = c, action = a, weight = w\<rparr>"

definition button_mapping :: ComponentMapping where
  "button_mapping =
     \<lparr>figmaType = ''COMPONENT'', figmaName = Some ''button'', antdComponent = ''Button'',
      confidence = 0,
      rules = [mk_rule ''name_contains_button'' ''increase_confidence'' 50,
               mk_rule ''has_text_content'' ''increase_confidence'' 20,
               mk_rule ''clickable_appearance'' ''increase_confidence'' 30]\<rparr>"

definition input_mapping :: ComponentMapping where
  "input_mapping =
     \<lparr>figmaType = ''FRAME'', figmaName = Some ''input'', antdComponent = ''Input'',
      confidence = 0,
      rules = [mk_rule ''name_contains_input'' ''increase_confidence'' 50,
               mk_rule ''has_border'' ''increase_confidence'' 20,
               mk_rule ''rectangular_shape'' ''increase_confidence'' 15]\<rparr>"

definition card_mapping :: ComponentMapping where
  "card_mapping =
     \<lparr>figmaType = ''FRAME'', figmaName = Some ''card'', antdComponent = ''Card'',
      confidence = 0,
      rules = [mk_rule ''name_contains_card'' ''increase_confidence'' 50,
               mk_rule ''has_background'' ''increase_confidence'' 20,
               mk_rule ''has_shadow'' ''increase_confidence'' 25,
               mk_rule ''contains_multiple_elements'' ''increase_confidence'' 15]\<rparr>"

definition text_mapping :: ComponentMapping where
  "text_mapping =
     \<lparr>figmaType = ''TEXT'', figmaName = None, antdComponent = ''Typography.Text'',
      confidence = 0,
      rules = [mk_rule ''is_text_node'' ''increase_confidence'' 80,
               mk_rule ''small_font_size'' ''prefer_text'' 20]\<rparr>"

definition div_mapping :: ComponentMapping where
  "div_mapping =
     \<lparr>figmaType = ''FRAME'', figmaName = None, antdComponent = ''div'',
      confidence = 0,
      rules = [mk_rule ''is_container'' ''use_div'' 10]\<rparr>"

text \<open>\<open>initializeComponentMappings\<close>: the registry, in registration order.\<close>

definition initializeComponentMappings :: "ComponentMapping list" where
  "initializeComponentMappings =
     [button_mapping, input_mapping, card_mapping, text_mapping, div_mapping]"

subsection \<open>Sample nodes\<close>

definition plain_frame :: ParsedComponent where
  "plain_frame = ParsedComponent ''1:2'' (Some ''Box'') ''FRAME'' [] None None None None"

definition plain_rectangle :: ParsedComponent where
  "plain_rectangle =
     ParsedComponent ''1:3'' (Some ''Shape'') ''RECTANGLE'' [] None None None None"

text \<open>
  A frame named \<open>Login INPUT Card\<close> with a border, a background, a shadow and two
  children, wider than high.
\<close>

definition login_frame :: ParsedComponent where
  "login_frame =
     ParsedComponent ''3:1'' (Some ''Login INPUT Card'') ''FRAME'' []
       (Some [plain_rectangle, plain_rectangle])
       (Some \<lparr>width = 200, height = 40, layout_x = 0, layout_y = 0, constraints = None,
               flexDirection = None\<rparr>)
       (Some \<lparr>backgroundColor = Some ''#ffffff'', borderColor = Some ''#000000'',
               borderWidth = Some 1, borderRadius = None, opacity = None,
               shadows = Some [\<lparr>shadow_type = ''DROP_SHADOW'', shadow_color = ''#000000'',
                                 shadow_x = 0, shadow_y = 2, shadow_blur = 4\<rparr>],
               fills = None\<rparr>)
       None"

section \<open>Numbers of the runtime\<close>

text \<open>
  A finite number of the runtime is a binary64 floating-point value, kept here as the pair
  of an integer significand \<open>m\<close> and an exponent \<open>e\<close> standing for \<open>m\<close> times two to the
  power \<open>e\<close>. Arithmetic on two of them computes the exact result and rounds it to the
  nearest representable value, a tie going to the even significand; a result too large
  becomes an infinity. (Subtracting or multiplying two finite numbers never gives a NaN.)
\<close>

datatype double = Double (significand: int) (exponent: int)

definition double_val :: "double \<Rightarrow> real" where
  "double_val d =
     (if 0 \<le> exponent d then of_int (significand d) * 2 ^ nat (exponent d)
      else of_int (significand d) / 2 ^ nat (- exponent d))"

datatype number = Finite double | PlusInfinity | MinusInfinity

text \<open>
  The integer nearest to \<open>a\<close> divided by two to the power \<open>s\<close>, for \<open>a\<close> not negative, a
  tie going to the even one.
\<close>

definition round_half_even :: "int \<Rightarrow> nat \<Rightarrow> int" where
  "round_half_even a s =
     (let d = a div 2 ^ s; r = a mod 2 ^ s in
      if 2 * r < 2 ^ s then d
      else if 2 * r > 2 ^ s then d + 1
      else if even d then d else d + 1)"

text \<open>
  Rounding of the exact value with significand \<open>m\<close> and exponent \<open>e\<close>: 53 significant
  bits, no exponent below -1074, an infinity from two to the power 1024 on.
\<close>

definition fl :: "int \<Rightarrow> int \<Rightarrow> number" where
  "fl m e =
     (let a = \<bar>m\<bar>;
          q = max (bitlen a + e - 53) (- 1074);
          k = (if q \<le> e then a else round_half_even a (nat (q - e)));
          x = (if q \<le> e then e else q)
      in if 2 ^ 1024 \<le> double_val (Double k x)
         then (if m < 0 then MinusInfinity else PlusInfinity)
         else Finite (Double (if m < 0 then - k else k) x))"

text \<open>The operators \<open>-\<close> and \<open>*\<close> on two finite numbers.\<close>

definition js_sub :: "double \<Rightarrow> double \<Rightarrow> number" where
  "js_sub a b =
     (let e = min (exponent a) (exponent b)
      in fl (significand a * 2 ^ nat (exponent a - e) - significand b * 2 ^ nat (exponent b - e)) e)"

definition js_mul :: "double \<Rightarrow> double \<Rightarrow> number" where
  "js_mul a b = fl (significand a * significand b) (exponent a + exponent b)"

text \<open>\<open>Math.abs\<close> and the comparison \<open><\<close> on the results.\<close>

fun Math_abs :: "number \<Rightarrow> number" where
  "Math_abs (Finite d) = Finite (Double \<bar>significand d\<bar> (exponent d))"
| "Math_abs PlusInfinity = PlusInfinity"
| "Math_abs MinusInfinity = PlusInfinity"

fun js_less :: "number \<Rightarrow> number \<Rightarrow> bool" where
  "js_less (Finite a) (Finite b) = (double_val a < double_val b)"
| "js_less (Finite a) PlusInfinity = True"
| "js_less MinusInfinity (Finite b) = True"
| "js_less MinusInfinity PlusInfinity = True"
| "js_less _ _ = False"

text \<open>
  Two limits of the engine that runs the code: how many arguments a call may spread
  (\<open>push(...items)\<close> raises a \<open>RangeError\<close> beyond it), and how deeply the recursive
  emitter may nest before the stack is exhausted (a \<open>RangeError\<close> again). Both depend on the
  engine and its stack size, so they are parameters, with the message of the error.
\<close>

record engine =
  argument_limit :: int
  recursion_limit :: int
  range_error :: string

definition sample_engine :: engine where
  "sample_engine = \<lparr>argument_limit = 130000, recursion_limit = 10000,
                     range_error = ''Maximum call stack size exceeded''\<rparr>"

section \<open>Design-document parser (parsers/figma-parser.ts)\<close>

record Rectangle =
  rect_x :: double
  rect_y :: double
  rect_width :: double
  rect_height :: double

record Color =
  color_r :: double
  color_g :: double
  color_b :: double
  color_a :: "double option"

text \<open>
  \<open>FigmaNode\<close>, with the fields that \<open>extractLayout\<close> reads.
\<close>

datatype FigmaNode =
  FigmaNode
    (fn_id: string)
    (fn_name: string)
    (fn_type: string)
    (absoluteBoundingBox: "Rectangle option")
    (fn_constraints: "(string \<times> string) option")
    (fn_children: "FigmaNode list option")

text \<open>
  \<open>Math.round\<close> of a finite number returns the integer nearest to its value, a tie going
  to the larger one.
\<close>

definition Math_round :: "real \<Rightarrow> int" where
  "Math_round v = \<lfloor>v + 1 / 2\<rfloor>"

definition hex_digit :: "nat \<Rightarrow> char" where
  "hex_digit d = ''0123456789abcdef'' ! d"

fun hex_digits :: "nat \<Rightarrow> string" where
  "hex_digits n = (if n < 16 then [hex_digit n] else hex_digits (n div 16) @ [hex_digit (n mod 16)])"

text \<open>\<open>x.toString(16)\<close> for an integer \<open>x\<close>.\<close>

definition toString16 :: "int \<Rightarrow> string" where
  "toString16 n = (if n < 0 then CHR ''-'' # hex_digits (nat (- n)) else hex_digits (nat n))"

text \<open>The function mapped over \<open>[r, g, b]\<close> in \<open>colorToHex\<close>.\<close>

definition pad_hex :: "int \<Rightarrow> string" where
  "pad_hex v = (let hex = toString16 v in if length hex = 1 then CHR ''0'' # hex else hex)"

text \<open>
  \<open>Math.round(channel * 255)\<close> followed by the mapped function: the product is the rounded
  double product; an infinite product stays infinite and prints as such.
\<close>

definition channel_hex :: "double \<Rightarrow> string" where
  "channel_hex channel =
     (case js_mul channel (Double 255 0) of
        Finite p \<Rightarrow> pad_hex (Math_round (double_val p))
      | PlusInfinity \<Rightarrow> ''Infinity''
      | MinusInfinity \<Rightarrow> ''-Infinity'')"

definition colorToHex :: "Color \<Rightarrow> string" where
  "colorToHex color =
     CHR ''#'' # concat (map channel_hex [color_r color, color_g color, color_b color])"

definition extractLayout :: "FigmaNode \<Rightarrow> LayoutInfo" where
  "extractLayout node =
     (let layout =
            \<lparr>width = (case absoluteBoundingBox node of None \<Rightarrow> 0
                      | Some bb \<Rightarrow> double_val (rect_width bb)),
             height = (case absoluteBoundingBox node of None \<Rightarrow> 0
                       | Some bb \<Rightarrow> double_val (rect_height bb)),
             layout_x = (case absoluteBoundingBox node of None \<Rightarrow> 0
                         | Some bb \<Rightarrow> double_val (rect_x bb)),
             layout_y = (case absoluteBoundingBox node of None \<Rightarrow> 0
                         | Some bb \<Rightarrow> double_val (rect_y bb)),
             constraints = None, flexDirection = None\<rparr>;
          layout = (case fn_constraints node of None \<Rightarrow> layout
                    | Some cs \<Rightarrow> layout\<lparr>constraints := Some cs\<rparr>)
      in if fn_type node = ''FRAME'' \<or> fn_type node = ''COMPONENT'' then
           (case fn_children node of
              Some (firstChild # secondChild # _) \<Rightarrow>
                (case (absoluteBoundingBox firstChild, absoluteBoundingBox secondChild) of
                   (Some b1, Some b2) \<Rightarrow>
                     (let isHorizontal =
                            js_less (Math_abs (js_sub (rect_y b1) (rect_y b2)))
                                    (Math_abs (js_sub (rect_x b1) (rect_x b2)))
                      in layout\<lparr>flexDirection := Some (if isHorizontal then Row else Column)\<rparr>)
                 | _ \<Rightarrow> layout)
            | _ \<Rightarrow> layout)
         else layout)"

definition leaf :: "string \<Rightarrow> double \<Rightarrow> double \<Rightarrow> FigmaNode" where
  "leaf i px py =
     FigmaNode i ''Item'' ''RECTANGLE''
       (Some \<lparr>rect_x = px, rect_y = py, rect_width = Double 10 0, rect_height = Double 10 0\<rparr>)
       None None"

definition frame_two :: FigmaNode where
  "frame_two = FigmaNode ''1:1'' ''Bar'' ''FRAME'' None None
                 (Some [leaf ''1:2'' (Double 0 0) (Double 0 0),
                        leaf ''1:3'' (Double 100 0) (Double 0 0)])"

definition group_two :: FigmaNode where
  "group_two = FigmaNode ''1:1'' ''Bar'' ''GROUP'' None None
                 (Some [leaf ''1:2'' (Double 0 0) (Double 0 0),
                        leaf ''1:3'' (Double 100 0) (Double 0 0)])"

text \<open>
  The doubles written \<open>0.3\<close>, \<open>23.4\<close> and \<open>104.4\<close>, and a frame whose children sit at
  (23.4, 138) and (104.4, 57).
\<close>

definition double_0_3 :: double where
  "double_0_3 = Double 5404319552844595 (- 54)"

definition double_23_4 :: double where
  "double_23_4 = Double 6586514455029350 (- 48)"

definition double_104_4 :: double where
  "double_104_4 = Double 7346496892148122 (- 46)"

definition frame_diagonal :: FigmaNode where
  "frame_diagonal = FigmaNode ''2:1'' ''Pair'' ''FRAME'' None None
                      (Some [leaf ''2:2'' double_23_4 (Double 138 0),
                             leaf ''2:3'' double_104_4 (Double 57 0)])"

section \<open>Code generator (generators/code-generator.ts)\<close>

datatype ComponentCategory =
  General | Layout | Navigation | DataEntry | DataDisplay | Feedback | Other

record AntdComponent =
  antd_name :: string
  displayName :: string
  category :: ComponentCategory

text \<open>The values stored in a \<open>Record<string, any>\<close> of props or styles.\<close>

datatype JsValue = JStr string | JBool bool | JNum real | JObj "(string \<times> JsValue) list"

datatype GeneratedComponentConfig =
  GeneratedComponentConfig
    (cfg_component: AntdComponent)
    (cfg_props: "(string \<times> JsValue) list")
    (cfg_children: "GeneratedComponentConfig list option")
    (cfg_style: "(string \<times> JsValue) list option")

datatype OutputFormat = Typescript | Javascript

record ParsedFigmaData =
  components :: "ParsedComponent list"

record GenerationConfig =
  figmaData :: ParsedFigmaData
  componentName :: string
  outputFormat :: OutputFormat
  includeStyles :: bool
  antdVersion :: string

record GenerationResult =
  code :: string
  importsList :: "string list"
  dependencies :: "string list"
  warnings :: "string list"
  mappings :: "ComponentMapping list"

text \<open>
  Two collaborators of the generator are parameters here. \<open>numToString\<close> is the runtime's
  conversion of a number to its decimal text. The catalogue analyser is the object passed to
  the constructor; what it returns depends on the component library's files on disk. Its
  call \<open>analyzeComponents([name])[0]\<close> yields a component or nothing; the repository's own
  analyser catches its errors, another one may raise an error with a message (\<open>Inl\<close>).
\<close>

type_synonym analyzer = "string \<Rightarrow> string + AntdComponent option"

definition name_text :: "string option \<Rightarrow> string" where
  "name_text n = (case n of None \<Rightarrow> ''undefined'' | Some s \<Rightarrow> s)"

definition generateProps :: "ParsedComponent \<Rightarrow> AntdComponent \<Rightarrow> (string \<times> JsValue) list" where
  "generateProps figmaComponent antdComp =
     (let props0 =
            (case pc_content figmaComponent of
               None \<Rightarrow> []
             | Some ct \<Rightarrow>
                 (case content_text ct of
                    None \<Rightarrow> []
                  | Some t \<Rightarrow>
                      if t = [] then []
                      else if antd_name antdComp \<in> set [''Button'', ''Typography'']
                        then [(''children'', JStr t)]
                      else if antd_name antdComp = ''Input''
                        then [(''placeholder'', JStr t)]
                      else []));
          props1 =
            (case pc_layout figmaComponent of
               None \<Rightarrow> props0
             | Some l \<Rightarrow>
                 if antd_name antdComp = ''Button'' then
                   (if height l \<le> 24 then props0 @ [(''size'', JStr ''small'')]
                    else if height l \<ge> 40 then props0 @ [(''size'', JStr ''large'')]
                    else props0 @ [(''size'', JStr ''middle'')])
                 else props0);
          props2 =
            (case pc_styling figmaComponent of
               None \<Rightarrow> props1
             | Some st \<Rightarrow>
                 if antd_name antdComp = ''Button'' then
                   (if (case fills st of None \<Rightarrow> False
                        | Some fs \<Rightarrow> list_ex (\<lambda>fill. fill_type fill = ''SOLID'') fs)
                      then props1 @ [(''type'', JStr ''primary'')]
                    else if truthy_num (borderWidth st)
                      then props1 @ [(''type'', JStr ''default'')]
                    else props1)
                 else props1)
      in if list_ex (\<lambda>p. prop_name p = ''visible'' \<and> prop_value p = PBool False)
              (pc_properties figmaComponent)
         then props2 @ [(''style'', JObj [(''display'', JStr ''none'')])]
         else props2)"

definition generateStyling ::
  "(real \<Rightarrow> string) \<Rightarrow> ParsedComponent \<Rightarrow> (string \<times> JsValue) list option" where
  "generateStyling numToString component =
     (case pc_styling component of
        None \<Rightarrow> None
      | Some st \<Rightarrow>
          (let style =
                 (case backgroundColor st of
                    Some bg \<Rightarrow> if bg \<noteq> [] then [(''backgroundColor'', JStr bg)] else []
                  | None \<Rightarrow> [])
                 @ (case (borderColor st, borderWidth st) of
                      (Some bc, Some bw) \<Rightarrow>
                        if bc \<noteq> [] \<and> bw \<noteq> 0
                        then [(''border'', JStr (numToString bw @ ''px solid '' @ bc))] else []
                    | _ \<Rightarrow> [])
                 @ (case borderRadius st of
                      Some br \<Rightarrow> if br \<noteq> 0 then [(''borderRadius'', JNum br)] else []
                    | None \<Rightarrow> [])
                 @ (case opacity st of
                      Some op \<Rightarrow> [(''opacity'', JNum op)]
                    | None \<Rightarrow> [])
                 @ (case shadows st of
                      Some (shadow # _) \<Rightarrow>
                        [(''boxShadow'',
                          JStr (numToString (shadow_x shadow) @ ''px '' @
                                numToString (shadow_y shadow) @ ''px '' @
                                numToString (shadow_blur shadow) @ ''px '' @
                                shadow_color shadow))]
                    | _ \<Rightarrow> [])
           in if style \<noteq> [] then Some style else None))"

text \<open>
  \<open>processComponent\<close> and the loop of \<open>processComponents\<close> (the loop over the children
  inside \<open>processComponent\<close> is the same loop). The \<open>result\<close> object that the source
  mutates is passed through. A raise inside the \<open>try\<close> of \<open>processComponent\<close> is caught
  there: a warning is pushed and \<open>null\<close> returned.
\<close>

fun processComponent ::
    "(real \<Rightarrow> string) \<Rightarrow> analyzer \<Rightarrow> ParsedComponent \<Rightarrow> GenerationResult
      \<Rightarrow> GeneratedComponentConfig option \<times> GenerationResult"
  and processComponents ::
    "(real \<Rightarrow> string) \<Rightarrow> analyzer \<Rightarrow> ParsedComponent list \<Rightarrow> GenerationResult
      \<Rightarrow> GeneratedComponentConfig list \<times> GenerationResult"
where
  "processComponent numToString analyzeComponents (ParsedComponent i nm ty prs chs lay sty ct) result =
     (let component = ParsedComponent i nm ty prs chs lay sty ct;
          ms = getComponentMapping initializeComponentMappings component None
      in case ms of
           [] \<Rightarrow>
             (None, result\<lparr>warnings := warnings result @
                [''No suitable Ant Design component found for: '' @ name_text nm]\<rparr>)
         | bestMapping # _ \<Rightarrow>
             (let result1 = result\<lparr>mappings := mappings result @ [bestMapping]\<rparr>
              in case analyzeComponents (antdComponent bestMapping) of
                   Inl message \<Rightarrow>
                     (None, result1\<lparr>warnings := warnings result1 @
                        [''Failed to process component '' @ name_text nm @ '': '' @ message]\<rparr>)
                 | Inr None \<Rightarrow>
                     (None, result1\<lparr>warnings := warnings result1 @
                        [''Could not analyze Ant Design component: '' @ antdComponent bestMapping]\<rparr>)
                 | Inr (Some antdComp) \<Rightarrow>
                     (let props = generateProps component antdComp;
                          (children, result2) =
                             (case chs of
                                None \<Rightarrow> ([], result1)
                              | Some cs \<Rightarrow> processComponents numToString analyzeComponents cs result1)
                      in (Some (GeneratedComponentConfig antdComp props
                                  (if children \<noteq> [] then Some children else None)
                                  (generateStyling numToString component)),
                          result2))))"
| "processComponents numToString analyzeComponents [] result = ([], result)"
| "processComponents numToString analyzeComponents (component # rest) result =
     (let (config, result1) = processComponent numToString analyzeComponents component result;
          (configs, result2) = processComponents numToString analyzeComponents rest result1
      in ((case config of None \<Rightarrow> [] | Some cfg \<Rightarrow> [cfg]) @ configs, result2))"

subsection \<open>Text helpers of the runtime\<close>

fun join :: "string \<Rightarrow> string list \<Rightarrow> string" where
  "join sep [] = []"
| "join sep [s] = s"
| "join sep (s # t # ts) = s @ sep @ join sep (t # ts)"

fun split_on :: "char \<Rightarrow> string \<Rightarrow> string list" where
  "split_on d [] = [[]]"
| "split_on d (c # cs) =
     (if c = d then [] # split_on d cs
      else (let parts = split_on d cs in (c # hd parts) # tl parts))"

definition is_space :: "char \<Rightarrow> bool" where
  "is_space c = ((of_char c :: nat) \<in> set [9, 10, 11, 12, 13, 32, 160])"

definition trim :: "string \<Rightarrow> string" where
  "trim s = rev (dropWhile is_space (rev (dropWhile is_space s)))"

definition json_escape_char :: "char \<Rightarrow> string" where
  "json_escape_char c =
     (let n = (of_char c :: nat) in
      if n = 34 then [CHR 0x5C, CHR 0x22]
      else if n = 92 then [CHR 0x5C, CHR 0x5C]
      else if n = 8 then [CHR 0x5C, CHR ''b'']
      else if n = 12 then [CHR 0x5C, CHR ''f'']
      else if n = 10 then [CHR 0x5C, CHR ''n'']
      else if n = 13 then [CHR 0x5C, CHR ''r'']
      else if n = 9 then [CHR 0x5C, CHR ''t'']
      else if n < 32 then [CHR 0x5C, CHR ''u'', CHR ''0'', CHR ''0'',
                           hex_digit (n div 16), hex_digit (n mod 16)]
      else [c])"

definition json_quote :: "string \<Rightarrow> string" where
  "json_quote s = [CHR 0x22] @ concat (map json_escape_char s) @ [CHR 0x22]"

text \<open>\<open>JSON.stringify\<close> on the values that props and styles hold.\<close>

fun stringify :: "(real \<Rightarrow> string) \<Rightarrow> JsValue \<Rightarrow> string"
  and stringify_members :: "(real \<Rightarrow> string) \<Rightarrow> (string \<times> JsValue) list \<Rightarrow> string list"
where
  "stringify numToString (JStr s) = json_quote s"
| "stringify numToString (JBool v) = (if v then ''true'' else ''false'')"
| "stringify numToString (JNum v) = numToString v"
| "stringify numToString (JObj kvs) = ''{'' @ join '','' (stringify_members numToString kvs) @ ''}''"
| "stringify_members numToString [] = []"
| "stringify_members numToString ((k, v) # kvs) =
     (json_quote k @ '':'' @ stringify numToString v) # stringify_members numToString kvs"

subsection \<open>Emission\<close>

definition prop_attribute :: "(real \<Rightarrow> string) \<Rightarrow> string \<times> JsValue \<Rightarrow> string" where
  "prop_attribute numToString kv =
     (case kv of (key, val) \<Rightarrow>
        if key = ''children'' then []
        else (case val of
                JStr v \<Rightarrow> '' '' @ key @ [CHR ''='', CHR 0x22] @ v @ [CHR 0x22]
              | JBool v \<Rightarrow> (if v then '' '' @ key else '' '' @ key @ ''={false}'')
              | _ \<Rightarrow> '' '' @ key @ ''={'' @ stringify numToString val @ ''}''))"

fun generateComponentJSX :: "(real \<Rightarrow> string) \<Rightarrow> GeneratedComponentConfig \<Rightarrow> nat \<Rightarrow> string"
  and generateChildrenJSX :: "(real \<Rightarrow> string) \<Rightarrow> GeneratedComponentConfig list \<Rightarrow> nat \<Rightarrow> string"
where
  "generateComponentJSX numToString (GeneratedComponentConfig antdComp props children style) indent =
     (let spaces = replicate indent CHR '' '';
          componentName = antd_name antdComp;
          jsx = spaces @ ''<'' @ componentName
                @ concat (map (prop_attribute numToString) props)
                @ (case style of None \<Rightarrow> []
                   | Some st \<Rightarrow> '' style={'' @ stringify numToString (JObj st) @ ''}'');
          textChildren = (case map_of props ''children'' of
                            Some (JStr t) \<Rightarrow> if t \<noteq> [] then Some t else None
                          | _ \<Rightarrow> None);
          hasComponentChildren = (case children of None \<Rightarrow> False | Some cs \<Rightarrow> cs \<noteq> [])
      in if textChildren \<noteq> None \<or> hasComponentChildren then
           jsx @ ''>''
           @ (case textChildren of Some t \<Rightarrow> t | None \<Rightarrow> [])
           @ (case children of
                None \<Rightarrow> []
              | Some cs \<Rightarrow>
                  if cs \<noteq> [] then
                    [CHR 0x0A] @ generateChildrenJSX numToString cs (indent + 2) @ spaces
                  else [])
           @ ''</'' @ componentName @ ''>'' @ [CHR 0x0A]
         else jsx @ '' />'' @ [CHR 0x0A])"
| "generateChildrenJSX numToString [] indent = []"
| "generateChildrenJSX numToString (child # rest) indent =
     generateComponentJSX numToString child indent @ generateChildrenJSX numToString rest indent"

fun collectComponents :: "GeneratedComponentConfig \<Rightarrow> string list"
  and collectAll :: "GeneratedComponentConfig list \<Rightarrow> string list"
where
  "collectComponents (GeneratedComponentConfig antdComp props children style) =
     antd_name antdComp # (case children of None \<Rightarrow> [] | Some cs \<Rightarrow> collectAll cs)"
| "collectAll [] = []"
| "collectAll (cfg # rest) = collectComponents cfg @ collectAll rest"

definition generateImportStatements :: "GeneratedComponentConfig list \<Rightarrow> string" where
  "generateImportStatements configs =
     (let antdComponents = remdups (collectAll configs)
      in join [CHR 0x0A]
           [''import React from 'react';'',
            ''import { '' @ join '', '' (sort antdComponents) @ '' } from 'antd';''])"

definition generateReactCode ::
  "(real \<Rightarrow> string) \<Rightarrow> string \<Rightarrow> GeneratedComponentConfig list \<Rightarrow> OutputFormat \<Rightarrow> bool \<Rightarrow> string" where
  "generateReactCode numToString name configs fmt inclStyles =
     (let importLines = generateImportStatements configs;
          typeAnnotations = (if fmt = Typescript then '': React.FC'' else [])
      in importLines @ [CHR 0x0A, CHR 0x0A]
         @ (if fmt = Typescript then ''interface '' @ name @ ''Props {}'' @ [CHR 0x0A, CHR 0x0A] else [])
         @ ''const '' @ name @ typeAnnotations @ '' = (''
             @ (if fmt = Typescript then ''props: '' @ name @ ''Props'' else []) @ '') => {'' @ [CHR 0x0A]
         @ ''  return ('' @ [CHR 0x0A]
         @ ''    <div>'' @ [CHR 0x0A]
         @ concat (map (\<lambda>config. generateComponentJSX numToString config 6) configs)
         @ ''    </div>'' @ [CHR 0x0A]
         @ ''  );'' @ [CHR 0x0A]
         @ ''};'' @ [CHR 0x0A, CHR 0x0A]
         @ ''export default '' @ name @ '';'')"

text \<open>
  \<open>generateReactCode\<close> walks the configs recursively (\<open>collectComponents\<close>, then
  \<open>generateComponentJSX\<close>); on a tree nested more deeply than the engine's stack allows
  the walk raises a \<open>RangeError\<close> instead of returning the text.
\<close>

fun config_depth :: "GeneratedComponentConfig \<Rightarrow> nat"
  and configs_depth :: "GeneratedComponentConfig list \<Rightarrow> nat"
where
  "config_depth (GeneratedComponentConfig antdComp props children style) =
     Suc (case children of None \<Rightarrow> 0 | Some cs \<Rightarrow> configs_depth cs)"
| "configs_depth [] = 0"
| "configs_depth (cfg # rest) = max (config_depth cfg) (configs_depth rest)"

definition generateReactCode_raises :: "engine \<Rightarrow> GeneratedComponentConfig list \<Rightarrow> bool" where
  "generateReactCode_raises eng configs = (recursion_limit eng < int (configs_depth configs))"

definition generateImports :: "GeneratedComponentConfig list \<Rightarrow> OutputFormat \<Rightarrow> string list" where
  "generateImports configs fmt =
     [''react'', ''antd''] @ (if fmt = Typescript then [''@types/react''] else [])"

subsection \<open>The formatter behind \<open>prettier.format\<close> (utils)\<close>

text \<open>
  One step of the loop over the trimmed lines: the state is the indentation level and the
  lines produced so far.
\<close>

definition format_line :: "string \<Rightarrow> nat \<times> string list \<Rightarrow> string \<Rightarrow> nat \<times> string list" where
  "format_line spaces st raw =
     (case st of (indentLevel, formattedLines) \<Rightarrow>
        (let line = trim raw in
         if line = [] then (indentLevel, formattedLines @ [[]])
         else
           (let l1 = (if startsWith line ''}'' \<or> startsWith line '']'' \<or> startsWith line '')''
                      then indentLevel - 1 else indentLevel);
                indentedLine = concat (replicate l1 spaces) @ line;
                l2 = (if endsWith line ''{'' \<or> endsWith line ''['' \<or> endsWith line ''(''
                      then l1 + 1 else l1);
                l3 = (if includes_str line ''<'' \<and> \<not> includes_str line ''</''
                         \<and> \<not> endsWith line ''/>'' \<and> includes_str line ''>''
                         \<and> \<not> endsWith line ''/>''
                      then l2 + 1 else l2);
                l4 = (if includes_str line ''</'' then l3 - 1 else l3)
            in (l4, formattedLines @ [indentedLine]))))"

definition prettier_format :: "string \<Rightarrow> string" where
  "prettier_format src =
     (let tabWidth = 2;
          spaces = replicate tabWidth CHR '' '';
          ls = split_on (CHR 0x0A) src
      in join [CHR 0x0A] (snd (foldl (format_line spaces) (0, []) ls)))"

text \<open>
  \<open>formatCode\<close> of the generator awaits \<open>prettier.format\<close> inside a \<open>try\<close>; the
  formatter above never raises, so the handler's branch (return the code unformatted) is
  never taken.
\<close>

definition formatCode :: "string \<Rightarrow> OutputFormat \<Rightarrow> string" where
  "formatCode src fmt = prettier_format src"

definition generateErrorComponent :: "string \<Rightarrow> string \<Rightarrow> OutputFormat \<Rightarrow> string" where
  \<open>generateErrorComponent name err fmt =
     (let typeAnnotation = (if fmt = Typescript then '': React.FC'' else [])
      in ''import React from 'react';'' @ [CHR 0x0A]
         @ ''import { Alert } from 'antd';'' @ [CHR 0x0A]
         @ [CHR 0x0A]
         @ ''const '' @ name @ typeAnnotation @ '' = () => {'' @ [CHR 0x0A]
         @ ''  return ('' @ [CHR 0x0A]
         @ ''    <Alert'' @ [CHR 0x0A]
         @ ''      message="Component Generation Error"'' @ [CHR 0x0A]
         @ ''      description="'' @ err @ [CHR 0x22, CHR 0x0A]
         @ ''      type="error"'' @ [CHR 0x0A]
         @ ''      showIcon'' @ [CHR 0x0A]
         @ ''    />'' @ [CHR 0x0A]
         @ ''  );'' @ [CHR 0x0A]
         @ ''};'' @ [CHR 0x0A]
         @ [CHR 0x0A]
         @ ''export default '' @ name @ '';'')\<close>

text \<open>The \<open>result\<close> object as \<open>generateComponent\<close> creates it.\<close>

definition initial_result :: GenerationResult where
  "initial_result = \<lparr>code = [], importsList = [''React''], dependencies = [''react'', ''antd''],
                     warnings = [], mappings = []\<rparr>"

text \<open>
  The body of the \<open>try\<close> in \<open>generateComponent\<close>: \<open>Inr\<close> the completed result, or
  \<open>Inl\<close> the message of the error raised together with the \<open>result\<close> object as it is at
  that moment. The explicit raise for an empty component list happens before \<open>result\<close> is
  touched; a raise in \<open>generateReactCode\<close> happens after \<open>processComponents\<close> has
  recorded its warnings and mappings.
\<close>

definition generateComponent_try ::
  "engine \<Rightarrow> (real \<Rightarrow> string) \<Rightarrow> analyzer \<Rightarrow> GenerationConfig \<Rightarrow> GenerationResult
     \<Rightarrow> (string \<times> GenerationResult) + GenerationResult" where
  "generateComponent_try eng numToString analyzeComponents config result =
     (let rootComponents = components (figmaData config) in
      if length rootComponents = 0 then Inl (''No components found in Figma data'', result)
      else
        (let (componentConfigs, result1) =
               processComponents numToString analyzeComponents rootComponents result
         in if generateReactCode_raises eng componentConfigs then Inl (range_error eng, result1)
            else
              (let componentCode = generateReactCode numToString (componentName config)
                                     componentConfigs (outputFormat config) (includeStyles config)
               in Inr (result1\<lparr>code := formatCode componentCode (outputFormat config),
                      importsList := generateImports componentConfigs (outputFormat config)\<rparr>))))"

definition generateComponent ::
  "engine \<Rightarrow> (real \<Rightarrow> string) \<Rightarrow> analyzer \<Rightarrow> GenerationConfig \<Rightarrow> GenerationResult" where
  "generateComponent eng numToString analyzeComponents config =
     (let result = initial_result
      in case generateComponent_try eng numToString analyzeComponents config result of
           Inr done \<Rightarrow> done
         | Inl (message, failed) \<Rightarrow>
             failed\<lparr>warnings := warnings failed @ [''Code generation failed: '' @ message],
                    code := generateErrorComponent (componentName config) message
                              (outputFormat config)\<rparr>)"

definition no_analyzer :: analyzer where
  "no_analyzer name = Inr None"


definition div_analyzer :: analyzer where
  "div_analyzer name = Inr (Some \<lparr>antd_name = name, displayName = name, category = Other\<rparr>)"

definition show_num :: "real \<Rightarrow> string" where
  "show_num v = ''0''"

definition empty_config :: GenerationConfig where
  "empty_config = \<lparr>figmaData = \<lparr>components = []\<rparr>, componentName = ''App'',
     outputFormat = Typescript, includeStyles = True, antdVersion = ''5''\<rparr>"

definition one_frame_config :: GenerationConfig where
  "one_frame_config = \<lparr>figmaData = \<lparr>components = [plain_frame]\<rparr>, componentName = ''App'',
     outputFormat = Typescript, includeStyles = True, antdVersion = ''5''\<rparr>"



section \<open>Regular expressions of the runtime\<close>

text \<open>
  The validator extracts structure from the source text with regular expressions. They are
  modelled by their abstract syntax and a backtracking matcher that returns every way a
  pattern can match at the start of the input, in the order in which a backtracking engine
  tries them; the first one is the match that \<open>exec\<close> reports.
\<close>

datatype regex =
    Lit char
  | Cls "char \<Rightarrow> bool"
  | Eps
  | Seq regex regex
  | Alt regex regex
  | Star bool regex
  | Opt regex
  | Group nat regex
  | Backref nat

text \<open>A matcher state: the input still to be read, and the captures made so far.\<close>

type_synonym mstate = "string \<times> (nat \<rightharpoonup> string)"

text \<open>
  Iteration of \<open>*\<close> (greedy when the flag is set, lazy otherwise). An iteration that
  consumes nothing is rejected, so at most as many iterations as there are characters
  left can happen.
\<close>

fun star_iter :: "nat \<Rightarrow> bool \<Rightarrow> (mstate \<Rightarrow> mstate list) \<Rightarrow> mstate \<Rightarrow> mstate list" where
  "star_iter 0 greedy step st = [st]"
| "star_iter (Suc n) greedy step st =
     (let more = concat (map (star_iter n greedy step)
                   (filter (\<lambda>st'. length (fst st') < length (fst st)) (step st)))
      in if greedy then more @ [st] else st # more)"

primrec match :: "regex \<Rightarrow> mstate \<Rightarrow> mstate list" where
  "match (Lit c) = (\<lambda>st. case fst st of [] \<Rightarrow> [] | d # ds \<Rightarrow> if d = c then [(ds, snd st)] else [])"
| "match (Cls p) = (\<lambda>st. case fst st of [] \<Rightarrow> [] | d # ds \<Rightarrow> if p d then [(ds, snd st)] else [])"
| "match Eps = (\<lambda>st. [st])"
| "match (Seq r1 r2) = (\<lambda>st. concat (map (match r2) (match r1 st)))"
| "match (Alt r1 r2) = (\<lambda>st. match r1 st @ match r2 st)"
| "match (Star greedy r) = (\<lambda>st. star_iter (length (fst st)) greedy (match r) st)"
| "match (Opt r) = (\<lambda>st. filter (\<lambda>st'. length (fst st') < length (fst st)) (match r st) @ [st])"
| "match (Group k r) =
     (\<lambda>st. map (\<lambda>st'. (fst st', (snd st')(k \<mapsto> take (length (fst st) - length (fst st')) (fst st))))
            (match r st))"
| "match (Backref k) =
     (\<lambda>st. case snd st k of
              None \<Rightarrow> [st]
            | Some w \<Rightarrow> if startsWith (fst st) w then [(drop (length w) (fst st), snd st)] else [])"

definition Plus :: "bool \<Rightarrow> regex \<Rightarrow> regex" where
  "Plus greedy r = Seq r (Star greedy r)"

fun Str :: "string \<Rightarrow> regex" where
  "Str [] = Eps"
| "Str [c] = Lit c"
| "Str (c # cs) = Seq (Lit c) (Str cs)"

fun Seqs :: "regex list \<Rightarrow> regex" where
  "Seqs [] = Eps"
| "Seqs [r] = r"
| "Seqs (r # rs) = Seq r (Seqs rs)"

definition is_word :: "char \<Rightarrow> bool" where
  "is_word c = (let n = (of_char c :: nat) in
                  (48 \<le> n \<and> n \<le> 57) \<or> (65 \<le> n \<and> n \<le> 90) \<or> (97 \<le> n \<and> n \<le> 122) \<or> n = 95)"

definition is_line_terminator :: "char \<Rightarrow> bool" where
  "is_line_terminator c = ((of_char c :: nat) \<in> set [10, 13])"

text \<open>The character classes: whitespace, word character, any but a line terminator, any, and sets.\<close>

definition re_s :: regex where "re_s = Cls is_space"
definition re_w :: regex where "re_w = Cls is_word"
definition re_dot :: regex where "re_dot = Cls (\<lambda>c. \<not> is_line_terminator c)"
definition re_any :: regex where "re_any = Cls (\<lambda>c. True)"
definition re_not :: "string \<Rightarrow> regex" where "re_not cs = Cls (\<lambda>c. c \<notin> set cs)"
definition re_oneof :: "string \<Rightarrow> regex" where "re_oneof cs = Cls (\<lambda>c. c \<in> set cs)"

text \<open>
  The loop \<open>while ((match = regex.exec(code)) !== null)\<close> of a global regular expression:
  every match, left to right, each search starting where the previous match ended. A match
  is returned with the text before it, the matched text and the captures. The regular
  expressions of this file consume at least one character whenever they match; on an empty
  match the source's loop would not advance, and the list ends there.
\<close>

function exec_all ::
  "regex \<Rightarrow> string \<Rightarrow> string \<Rightarrow> (string \<times> string \<times> (nat \<rightharpoonup> string)) list" where
  "exec_all re pre s =
     (case match re (s, Map.empty) of
        [] \<Rightarrow> (case s of [] \<Rightarrow> [] | c # cs \<Rightarrow> exec_all re (pre @ [c]) cs)
      | st # _ \<Rightarrow>
          (let matched = take (length s - length (fst st)) s
           in if length (fst st) < length s
              then (pre, matched, snd st) # exec_all re (pre @ matched) (fst st)
              else [(pre, matched, snd st)]))"
  by pat_completeness auto
termination
  by (relation "measure (\<lambda>(re, pre, s). length s)") auto

text \<open>
  Three properties read off the syntax of a pattern: it makes no capture; it consumes at
  least one character whenever it matches; whatever it matches ends with a given character.
\<close>

primrec groups_free :: "regex \<Rightarrow> bool" where
  "groups_free (Lit c) = True"
| "groups_free (Cls p) = True"
| "groups_free Eps = True"
| "groups_free (Seq r1 r2) = (groups_free r1 \<and> groups_free r2)"
| "groups_free (Alt r1 r2) = (groups_free r1 \<and> groups_free r2)"
| "groups_free (Star greedy r) = groups_free r"
| "groups_free (Opt r) = groups_free r"
| "groups_free (Group k r) = False"
| "groups_free (Backref k) = True"

primrec consumes :: "regex \<Rightarrow> bool" where
  "consumes (Lit c) = True"
| "consumes (Cls p) = True"
| "consumes Eps = False"
| "consumes (Seq r1 r2) = (consumes r1 \<or> consumes r2)"
| "consumes (Alt r1 r2) = (consumes r1 \<and> consumes r2)"
| "consumes (Star greedy r) = False"
| "consumes (Opt r) = False"
| "consumes (Group k r) = consumes r"
| "consumes (Backref k) = False"

primrec ends_with :: "char \<Rightarrow> regex \<Rightarrow> bool" where
  "ends_with c (Lit d) = (c = d)"
| "ends_with c (Cls p) = False"
| "ends_with c Eps = False"
| "ends_with c (Seq r1 r2) = ends_with c r2"
| "ends_with c (Alt r1 r2) = (ends_with c r1 \<and> ends_with c r2)"
| "ends_with c (Star greedy r) = False"
| "ends_with c (Opt r) = False"
| "ends_with c (Group k r) = ends_with c r"
| "ends_with c (Backref k) = False"

text \<open>\<open>code.substring(0, match.index).split('\n').length\<close>\<close>

definition line_of :: "string \<Rightarrow> nat" where
  "line_of pre = length (split_on (CHR 0x0A) pre)"

definition cap :: "(nat \<rightharpoonup> string) \<Rightarrow> nat \<Rightarrow> string" where
  "cap caps k = (case caps k of None \<Rightarrow> [] | Some w \<Rightarrow> w)"

section \<open>Static validator (validators/code-validator.ts)\<close>

record ValidationOptions =
  strict :: bool
  checkImports :: bool
  checkProps :: bool
  checkAccessibility :: bool
  checkPerformance :: bool

text \<open>\<open>Partial<ValidationOptions>\<close>: any option may be left out.\<close>

record PartialValidationOptions =
  opt_strict :: "bool option"
  opt_checkImports :: "bool option"
  opt_checkProps :: "bool option"
  opt_checkAccessibility :: "bool option"
  opt_checkPerformance :: "bool option"

datatype ErrorType = Syntax | Import | Prop | Accessibility | AntdUsage

datatype Severity = SeverityError | SeverityWarning

record ValidationError =
  err_type :: ErrorType
  err_message :: string
  err_line :: "nat option"
  err_column :: "nat option"
  severity :: Severity

datatype WarningType = Performance | BestPractice | Style

record ValidationWarning =
  warn_type :: WarningType
  warn_message :: string
  warn_line :: "nat option"
  warn_suggestion :: "string option"

datatype SuggestionType = Improvement | Alternative | Optimization

record ValidationSuggestion =
  sugg_type :: SuggestionType
  sugg_message :: string
  sugg_example :: "string option"

record ValidationResult =
  isValid :: bool
  vr_errors :: "ValidationError list"
  vr_warnings :: "ValidationWarning list"
  vr_suggestions :: "ValidationSuggestion list"
  score :: int

record ImportInfo =
  import_source :: string
  defaultImport :: "string option"
  namedImports :: "string list"
  namespaceImport :: "string option"
  import_line :: nat

record ComponentInfo =
  comp_name :: string
  comp_type :: string
  comp_line :: nat

record JSXInfo =
  tagName :: string
  fullMatch :: string
  jsx_line :: nat
  isAntdComponent :: bool

datatype PropKind = StringProp | ExpressionProp

record PropInfo =
  pi_name :: string
  pi_value :: string
  pi_type :: PropKind
  pi_line :: nat

record StyleInfo =
  style_type :: string
  style_content :: string
  style_line :: nat

record ParsedCode =
  parsed_raw :: string
  parsed_lines :: "string list"
  parsed_imports :: "ImportInfo list"
  parsed_components :: "ComponentInfo list"
  parsed_jsx :: "JSXInfo list"
  parsed_props :: "PropInfo list"
  parsed_styles :: "StyleInfo list"

subsection \<open>Pattern extraction\<close>

definition quote_chars :: string where
  "quote_chars = [CHR 0x27, CHR 0x22]"

definition importRegex :: regex where
  "importRegex =
     Seqs [Str ''import'', Plus True re_s,
           Alt (Seqs [Lit CHR ''{'', Group 1 (Plus True (re_not ''}'')), Lit CHR ''}''])
            (Alt (Seqs [Lit CHR ''*'', Plus True re_s, Str ''as'', Plus True re_s,
                        Group 2 (Plus True re_w)])
                 (Group 3 (Plus True re_w))),
           Plus True re_s, Str ''from'', Plus True re_s,
           re_oneof quote_chars, Group 4 (Plus True (re_not quote_chars)), re_oneof quote_chars]"

definition funcComponentRegex :: regex where
  "funcComponentRegex =
     Seqs [Str ''const'', Plus True re_s, Group 1 (Plus True re_w), Star False re_dot,
           Lit CHR ''='', Star True re_s, Lit CHR ''('', Star True (re_not '')''), Lit CHR '')'',
           Star True re_s, Str ''=>'', Star True re_s, Lit CHR ''{'']"

definition jsxRegex :: regex where
  "jsxRegex =
     Seqs [Lit CHR ''<'', Group 1 (Plus True re_w),
           Opt (Seq (Plus True re_s) (Star True (re_not ''>''))),
           Alt (Seqs [Star True re_s, Lit CHR ''/'', Lit CHR ''>''])
               (Seqs [Lit CHR ''>'', Star False re_any, Lit CHR ''<'', Lit CHR ''/'', Backref 1,
                      Lit CHR ''>''])]"

definition propRegex :: regex where
  "propRegex =
     Seqs [Group 1 (Plus True re_w), Lit CHR ''='',
           Alt (Seqs [Lit CHR ''{'', Group 2 (Plus True (re_not ''}'')), Lit CHR ''}''])
               (Seqs [Lit (CHR 0x22), Group 3 (Plus True (re_not [CHR 0x22])), Lit (CHR 0x22)])]"

definition inlineStyleRegex :: regex where
  "inlineStyleRegex =
     Seqs [Str ''style='', Lit CHR ''{'', Group 1 (Plus True (re_not ''}'')), Lit CHR ''}'']"

definition extractImports :: "string \<Rightarrow> ImportInfo list" where
  "extractImports src =
     map (\<lambda>(pre, matched, caps).
            \<lparr>import_source = cap caps 4,
             defaultImport = caps 3,
             namedImports = (case caps 1 of None \<Rightarrow> []
                             | Some named \<Rightarrow> map trim (split_on CHR '','' named)),
             namespaceImport = caps 2,
             import_line = line_of pre\<rparr>)
         (exec_all importRegex [] src)"

definition extractComponents :: "string \<Rightarrow> ComponentInfo list" where
  "extractComponents src =
     map (\<lambda>(pre, matched, caps).
            \<lparr>comp_name = cap caps 1, comp_type = ''function'', comp_line = line_of pre\<rparr>)
         (exec_all funcComponentRegex [] src)"

definition extractJSX :: "string list \<Rightarrow> string \<Rightarrow> JSXInfo list" where
  "extractJSX antdComponents src =
     map (\<lambda>(pre, matched, caps).
            \<lparr>tagName = cap caps 1, fullMatch = matched, jsx_line = line_of pre,
             isAntdComponent = (cap caps 1 \<in> set antdComponents)\<rparr>)
         (exec_all jsxRegex [] src)"

definition extractProps :: "string \<Rightarrow> PropInfo list" where
  "extractProps src =
     map (\<lambda>(pre, matched, caps).
            \<lparr>pi_name = cap caps 1,
             pi_value = (case caps 2 of Some jsValue \<Rightarrow> jsValue | None \<Rightarrow> cap caps 3),
             pi_type = (case caps 2 of Some jsValue \<Rightarrow> ExpressionProp | None \<Rightarrow> StringProp),
             pi_line = line_of pre\<rparr>)
         (exec_all propRegex [] src)"

definition extractStyles :: "string \<Rightarrow> StyleInfo list" where
  "extractStyles src =
     map (\<lambda>(pre, matched, caps).
            \<lparr>style_type = ''inline'', style_content = cap caps 1, style_line = line_of pre\<rparr>)
         (exec_all inlineStyleRegex [] src)"

definition parseCode :: "string list \<Rightarrow> string \<Rightarrow> ParsedCode" where
  "parseCode antdComponents src =
     \<lparr>parsed_raw = src,
      parsed_lines = split_on (CHR 0x0A) src,
      parsed_imports = extractImports src,
      parsed_components = extractComponents src,
      parsed_jsx = extractJSX antdComponents src,
      parsed_props = extractProps src,
      parsed_styles = extractStyles src\<rparr>"

subsection \<open>Check rules\<close>

datatype ValidationRule =
    ImportValidationRule
  | AntdUsageValidationRule
  | PropValidationRule
  | AccessibilityValidationRule
  | PerformanceValidationRule
  | BestPracticeValidationRule

type_synonym rule_result =
  "ValidationError list \<times> ValidationWarning list \<times> ValidationSuggestion list"

definition import_rule :: "ParsedCode \<Rightarrow> rule_result" where
  "import_rule parsed =
     (let hasReactImport = list_ex (\<lambda>imp. import_source imp = ''react'') (parsed_imports parsed);
          errs = (if \<not> hasReactImport \<and> length (parsed_jsx parsed) > 0
                  then [\<lparr>err_type = Import, err_message = ''Missing React import'',
                          err_line = None, err_column = None, severity = SeverityError\<rparr>]
                  else []);
          warns = concat (map (\<lambda>imp.
                    if import_source imp = ''antd'' then
                      concat (map (\<lambda>namedImport.
                        if list_ex (\<lambda>j. tagName j = namedImport) (parsed_jsx parsed) then []
                        else [\<lparr>warn_type = BestPractice,
                               warn_message = ''Unused import: '' @ namedImport @ '' from antd'',
                               warn_line = None,
                               warn_suggestion = Some ''Remove unused imports to reduce bundle size''\<rparr>])
                        (namedImports imp))
                    else []) (parsed_imports parsed))
      in (errs, warns, []))"

definition antd_usage_rule :: "ParsedCode \<Rightarrow> rule_result" where
  "antd_usage_rule parsed =
     (concat (map (\<lambda>j.
        if isAntdComponent j \<and> tagName j = ''Form.Item''
           \<and> \<not> list_ex (\<lambda>k. tagName k = ''Form'') (parsed_jsx parsed)
        then [\<lparr>err_type = AntdUsage,
               err_message = ''Form.Item must be inside a Form component'',
               err_line = Some (jsx_line j), err_column = None, severity = SeverityError\<rparr>]
        else []) (parsed_jsx parsed)),
      [], [])"

definition prop_rule :: "ParsedCode \<Rightarrow> rule_result" where
  "prop_rule parsed =
     ([],
      concat (map (\<lambda>prop.
        if pi_name prop = ''size'' \<and> pi_value prop \<notin> set [''small'', ''middle'', ''large'']
        then [\<lparr>warn_type = BestPractice,
               warn_message = ''Invalid size prop value: '' @ pi_value prop,
               warn_line = Some (pi_line prop),
               warn_suggestion = Some (''Use '' @ [CHR 0x22] @ ''small'' @ [CHR 0x22] @ '', ''
                  @ [CHR 0x22] @ ''middle'' @ [CHR 0x22] @ '', or '' @ [CHR 0x22] @ ''large''
                  @ [CHR 0x22])\<rparr>]
        else []) (parsed_props parsed)),
      [])"

definition accessibility_rule :: "ParsedCode \<Rightarrow> rule_result" where
  "accessibility_rule parsed =
     ([],
      concat (map (\<lambda>j.
        (if tagName j = ''img'' \<and> \<not> includes_str (fullMatch j) ''alt=''
         then [\<lparr>warn_type = BestPractice, warn_message = ''Image missing alt text'',
                warn_line = Some (jsx_line j),
                warn_suggestion = Some ''Add alt attribute for accessibility''\<rparr>]
         else [])
        @ (if tagName j = ''Button'' \<and> \<not> includes_str (fullMatch j) ''aria-label''
              \<and> \<not> includes_str (fullMatch j) ''>''
           then [\<lparr>warn_type = BestPractice, warn_message = ''Button without accessible label'',
                  warn_line = Some (jsx_line j),
                  warn_suggestion = Some ''Add aria-label or text content''\<rparr>]
           else [])) (parsed_jsx parsed)),
      [])"

definition performance_rule :: "ParsedCode \<Rightarrow> rule_result" where
  "performance_rule parsed =
     ([],
      concat (map (\<lambda>(index, line).
        if includes_str line ''() =>'' \<and> includes_str line ''onClick''
        then [\<lparr>warn_type = Performance, warn_message = ''Inline function in event handler'',
               warn_line = Some (index + 1),
               warn_suggestion = Some ''Move function outside render or use useCallback''\<rparr>]
        else []) (enumerate 0 (parsed_lines parsed))),
      [])"

definition is_upper :: "char \<Rightarrow> bool" where
  "is_upper c = (let n = (of_char c :: nat) in 65 \<le> n \<and> n \<le> 90)"

definition best_practice_rule :: "ParsedCode \<Rightarrow> rule_result" where
  "best_practice_rule parsed =
     ([],
      concat (map (\<lambda>c.
        if \<not> (case comp_name c of [] \<Rightarrow> False | ch # _ \<Rightarrow> is_upper ch)
        then [\<lparr>warn_type = BestPractice,
               warn_message = ''Component name should start with uppercase: '' @ comp_name c,
               warn_line = Some (comp_line c), warn_suggestion = None\<rparr>]
        else []) (parsed_components parsed)),
      (if length (parsed_jsx parsed) > 10
       then [\<lparr>sugg_type = Improvement,
              sugg_message = ''Consider breaking down large components into smaller ones'',
              sugg_example = Some ''Extract repeated patterns into reusable components''\<rparr>]
       else []))"

fun rule_validate :: "ValidationRule \<Rightarrow> ParsedCode \<Rightarrow> ValidationOptions \<Rightarrow> rule_result" where
  "rule_validate ImportValidationRule parsed config = import_rule parsed"
| "rule_validate AntdUsageValidationRule parsed config = antd_usage_rule parsed"
| "rule_validate PropValidationRule parsed config = prop_rule parsed"
| "rule_validate AccessibilityValidationRule parsed config = accessibility_rule parsed"
| "rule_validate PerformanceValidationRule parsed config = performance_rule parsed"
| "rule_validate BestPracticeValidationRule parsed config = best_practice_rule parsed"

definition initializeValidationRules :: "ValidationRule list" where
  "initializeValidationRules =
     [ImportValidationRule, AntdUsageValidationRule, PropValidationRule,
      AccessibilityValidationRule, PerformanceValidationRule, BestPracticeValidationRule]"

fun shouldApplyRule :: "ValidationRule \<Rightarrow> ValidationOptions \<Rightarrow> bool" where
  "shouldApplyRule ImportValidationRule config = checkImports config"
| "shouldApplyRule PropValidationRule config = checkProps config"
| "shouldApplyRule AccessibilityValidationRule config = checkAccessibility config"
| "shouldApplyRule PerformanceValidationRule config = checkPerformance config"
| "shouldApplyRule _ config = True"

definition calculateScore :: "ValidationResult \<Rightarrow> int" where
  "calculateScore result =
     (let s0 = 100;
          s1 = s0 - int (length (filter (\<lambda>e. severity e = SeverityError) (vr_errors result))) * 20;
          s2 = s1 - int (length (filter (\<lambda>e. severity e = SeverityWarning) (vr_errors result))) * 5;
          s3 = s2 - int (length (vr_warnings result)) * 2
      in max 0 s3)"

definition merge_options :: "PartialValidationOptions \<Rightarrow> ValidationOptions" where
  "merge_options options =
     \<lparr>strict = (case opt_strict options of None \<Rightarrow> True | Some v \<Rightarrow> v),
      checkImports = (case opt_checkImports options of None \<Rightarrow> True | Some v \<Rightarrow> v),
      checkProps = (case opt_checkProps options of None \<Rightarrow> True | Some v \<Rightarrow> v),
      checkAccessibility = (case opt_checkAccessibility options of None \<Rightarrow> True | Some v \<Rightarrow> v),
      checkPerformance = (case opt_checkPerformance options of None \<Rightarrow> True | Some v \<Rightarrow> v)\<rparr>"

text \<open>
  \<open>target.push(...items)\<close>: the items are passed as arguments of one call, which raises
  a \<open>RangeError\<close> and leaves the target as it is when there are more of them than the
  engine accepts.
\<close>

definition push_spread :: "engine \<Rightarrow> 'a list \<Rightarrow> 'a list \<Rightarrow> string + 'a list" where
  "push_spread eng target items =
     (if argument_limit eng < int (length items) then Inl (range_error eng)
      else Inr (target @ items))"

text \<open>
  One round of the loop over the rules: an applicable rule's errors, warnings and
  suggestions are pushed in this order. \<open>Inl\<close> carries the message of a raised error and
  the \<open>result\<close> object as it is at that moment.
\<close>

definition run_rule ::
  "engine \<Rightarrow> ParsedCode \<Rightarrow> ValidationOptions \<Rightarrow> ValidationResult \<Rightarrow> ValidationRule
     \<Rightarrow> (string \<times> ValidationResult) + ValidationResult" where
  "run_rule eng parsedCode config result rule =
     (if shouldApplyRule rule config then
        (case rule_validate rule parsedCode config of
           (errs, warns, suggs) \<Rightarrow>
             (case push_spread eng (vr_errors result) errs of
                Inl message \<Rightarrow> Inl (message, result)
              | Inr es \<Rightarrow>
                  (let result1 = result\<lparr>vr_errors := es\<rparr> in
                   case push_spread eng (vr_warnings result1) warns of
                     Inl message \<Rightarrow> Inl (message, result1)
                   | Inr ws \<Rightarrow>
                       (let result2 = result1\<lparr>vr_warnings := ws\<rparr> in
                        case push_spread eng (vr_suggestions result2) suggs of
                          Inl message \<Rightarrow> Inl (message, result2)
                        | Inr ss \<Rightarrow> Inr (result2\<lparr>vr_suggestions := ss\<rparr>)))))
      else Inr result)"

fun run_rules ::
  "engine \<Rightarrow> ParsedCode \<Rightarrow> ValidationOptions \<Rightarrow> ValidationResult \<Rightarrow> ValidationRule list
     \<Rightarrow> (string \<times> ValidationResult) + ValidationResult" where
  "run_rules eng parsedCode config result [] = Inr result"
| "run_rules eng parsedCode config result (rule # rest) =
     (case run_rule eng parsedCode config result rule of
        Inl failure \<Rightarrow> Inl failure
      | Inr result1 \<Rightarrow> run_rules eng parsedCode config result1 rest)"

text \<open>
  The body of the \<open>try\<close> in \<open>validate\<close>. Splitting, pattern extraction and the rules
  themselves do not raise on a string; pushing a rule's findings does when there are too
  many of them.
\<close>

definition validate_try ::
  "engine \<Rightarrow> string list \<Rightarrow> string \<Rightarrow> ValidationOptions \<Rightarrow> ValidationResult
     \<Rightarrow> (string \<times> ValidationResult) + ValidationResult" where
  "validate_try eng antdComponents src config result =
     (let parsedCode = parseCode antdComponents src in
      case run_rules eng parsedCode config result initializeValidationRules of
        Inl failure \<Rightarrow> Inl failure
      | Inr result1 \<Rightarrow>
          (let result2 = result1\<lparr>score := calculateScore result1\<rparr>
           in Inr (result2\<lparr>isValid :=
                (length (filter (\<lambda>e. severity e = SeverityError) (vr_errors result2)) = 0)\<rparr>)))"

text \<open>The \<open>result\<close> object as \<open>validate\<close> creates it.\<close>

definition initial_validation :: ValidationResult where
  "initial_validation =
     \<lparr>isValid = True, vr_errors = [], vr_warnings = [], vr_suggestions = [], score = 0\<rparr>"

definition validate ::
  "engine \<Rightarrow> string list \<Rightarrow> string \<Rightarrow> PartialValidationOptions \<Rightarrow> ValidationResult" where
  "validate eng antdComponents src options =
     (let config = merge_options options;
          result = initial_validation
      in case validate_try eng antdComponents src config result of
           Inr done \<Rightarrow> done
         | Inl (message, failed) \<Rightarrow>
             failed\<lparr>vr_errors := vr_errors failed @
                      [\<lparr>err_type = Syntax, err_message = ''Failed to parse code: '' @ message,
                        err_line = None, err_column = None, severity = SeverityError\<rparr>],
                    isValid := False, score := 0\<rparr>)"

text \<open>The fallback list of \<open>loadAntdComponents\<close>.\<close>

definition commonComponents :: "string list" where
  "commonComponents =
     [''Button'', ''Input'', ''Card'', ''Typography'', ''Space'', ''Row'', ''Col'',
      ''Form'', ''Table'', ''Modal'', ''Drawer'', ''Alert'', ''Spin'', ''Menu'',
      ''Dropdown'', ''Tooltip'', ''Popover'', ''Tabs'', ''Select'', ''DatePicker'',
      ''Checkbox'', ''Radio'', ''Switch'', ''Slider'', ''Upload'', ''Avatar'',
      ''Badge'', ''Tag'', ''Progress'', ''Tree'', ''List'', ''Steps'', ''Breadcrumb'']"

definition default_options :: PartialValidationOptions where
  "default_options = \<lparr>opt_strict = None, opt_checkImports = None, opt_checkProps = None,
     opt_checkAccessibility = None, opt_checkPerformance = None\<rparr>"

definition five_errors :: ValidationResult where
  "five_errors =
     \<lparr>isValid = True,
      vr_errors = replicate 5 \<lparr>err_type = Import, err_message = ''Missing React import'',
                    err_line = None, err_column = None, severity = SeverityError\<rparr>,
      vr_warnings = [], vr_suggestions = [], score = 0\<rparr>"

definition nested_image :: string where
  "nested_image = ''<div><img src=1 /></div>''"

text \<open>
  A text of \<open>n\<close> lines, each binding an inline function to a click handler, and
  options that leave only the performance check of the optional checks enabled.
\<close>

definition handler_line :: string where
  "handler_line = ''onClick={() => 1}''"

definition many_handlers :: "nat \<Rightarrow> string" where
  "many_handlers n = join [CHR 0x0A] (replicate n handler_line)"

definition performance_only :: PartialValidationOptions where
  "performance_only = \<lparr>opt_strict = None, opt_checkImports = Some False,
     opt_checkProps = Some False, opt_checkAccessibility = Some False,
     opt_checkPerformance = None\<rparr>"

section \<open>Verified properties\<close>

subsection \<open>Mapping engine: auxiliary facts\<close>

lemma foldl_weights:
  "foldl (\<lambda>c rule. if P rule then c + weight rule else c) c0 rs
     = c0 + sum_list (map weight (filter P rs))"
  by (induction rs arbitrary: c0) auto

lemma accumulate_sum:
  "accumulate mp n c =
     (if figmaType mp = pc_type n then 30 else 0)
     + (if (case figmaName mp of None \<Rightarrow> False
            | Some fname \<Rightarrow> fname \<noteq> [] \<and> includes_str (case pc_name n of None \<Rightarrow> [] | Some s \<Rightarrow> toLowerCase s) fname)
        then 40 else 0)
     + sum_list (map weight (filter (\<lambda>r. evaluateRule r n c) (rules mp)))"
  by (simp add: accumulate_def Let_def foldl_weights)

lemma candidates_append:
  "candidates (xs @ ys) n c = candidates xs n c @ candidates ys n c"
  by (induction xs) (simp_all add: Let_def)

lemma candidates_set:
  "m \<in> set (candidates reg n c) \<longleftrightarrow>
     (\<exists>mp \<in> set reg. 20 < accumulate mp n c \<and> m = mp\<lparr>confidence := min (accumulate mp n c) 100\<rparr>)"
  by (induction reg) (auto simp: Let_def)

lemma set_getComponentMapping:
  "set (getComponentMapping reg n c) = set (candidates reg n c)"
  by (simp add: getComponentMapping_def sort_by_confidence_def)

lemma stable:
  "filter (\<lambda>m. confidence m = k) (getComponentMapping reg n c)
     = filter (\<lambda>m. confidence m = k) (candidates reg n c)"
  using sort_key_stable[of "\<lambda>m. - confidence m" "- k" "candidates reg n c"]
  by (simp add: getComponentMapping_def sort_by_confidence_def)

lemma sorted_desc:
  "sorted (map (\<lambda>m. - confidence m) (getComponentMapping reg n c))"
  by (simp add: getComponentMapping_def sort_by_confidence_def)

lemma filter_split:
  "filter P ys = u @ a # r \<Longrightarrow> \<exists>as bs. ys = as @ a # bs \<and> filter P bs = r"
proof (induction u arbitrary: ys)
  case Nil
  then show ?case by (auto simp: filter_eq_Cons_iff)
next
  case (Cons z u)
  then obtain us vs where 1: "ys = us @ z # vs" "filter P vs = u @ a # r"
    by (auto simp: filter_eq_Cons_iff)
  from Cons.IH[OF 1(2)] obtain as bs where "vs = as @ a # bs" "filter P bs = r" by blast
  then have "ys = (us @ z # as) @ a # bs \<and> filter P bs = r" using 1 by simp
  then show ?case by blast
qed

lemma filter_two:
  assumes "filter P ys = u @ a # v @ b # w"
  shows "\<exists>as bs cs. ys = as @ a # bs @ b # cs"
proof -
  from filter_split[OF assms] obtain as ys' where 1: "ys = as @ a # ys'" "filter P ys' = v @ b # w"
    by blast
  from filter_split[OF 1(2)] obtain bs cs where "ys' = bs @ b # cs" by blast
  with 1 show ?thesis by blast
qed

lemma nth_split_two:
  assumes "i < j" "j < length xs"
  shows "\<exists>r1 r2 r3. xs = r1 @ xs ! i # r2 @ xs ! j # r3"
proof -
  have 1: "xs = take i xs @ xs ! i # drop (Suc i) xs"
    using assms by (simp add: id_take_nth_drop)
  have "j - Suc i < length (drop (Suc i) xs)" using assms by simp
  from id_take_nth_drop[OF this]
  have 2: "drop (Suc i) xs = take (j - Suc i) (drop (Suc i) xs) @ xs ! j # drop (Suc j) xs"
    using assms by simp
  have "xs = take i xs @ xs ! i # take (j - Suc i) (drop (Suc i) xs) @ xs ! j # drop (Suc j) xs"
    using 1 2 by simp
  then show ?thesis by blast
qed

lemma tie:
  assumes "i < j" "j < length reg"
    and "20 < accumulate (reg ! i) n c" and "20 < accumulate (reg ! j) n c"
    and "min (accumulate (reg ! i) n c) 100 = min (accumulate (reg ! j) n c) 100"
  shows "\<exists>as bs cs. getComponentMapping reg n c =
            as @ (reg ! i)\<lparr>confidence := min (accumulate (reg ! i) n c) 100\<rparr>
             # bs @ (reg ! j)\<lparr>confidence := min (accumulate (reg ! j) n c) 100\<rparr> # cs"
proof -
  define mi where "mi = reg ! i"
  define mj where "mj = reg ! j"
  define k where "k = min (accumulate mi n c) 100"
  from nth_split_two[OF assms(1,2)] obtain r1 r2 r3 where reg: "reg = r1 @ mi # r2 @ mj # r3"
    unfolding mi_def mj_def by blast
  have acc: "min (accumulate mj n c) 100 = k" "20 < accumulate mi n c" "20 < accumulate mj n c"
    using assms(3,4,5) by (simp_all add: mi_def mj_def k_def)
  have "candidates reg n c =
          candidates r1 n c @ mi\<lparr>confidence := k\<rparr> # candidates r2 n c
            @ mj\<lparr>confidence := k\<rparr> # candidates r3 n c"
    unfolding reg using acc by (simp add: candidates_append Let_def k_def[symmetric])
  then have "filter (\<lambda>m. confidence m = k) (getComponentMapping reg n c)
      = filter (\<lambda>m. confidence m = k) (candidates r1 n c) @ mi\<lparr>confidence := k\<rparr> #
        filter (\<lambda>m. confidence m = k) (candidates r2 n c) @ mj\<lparr>confidence := k\<rparr> #
        filter (\<lambda>m. confidence m = k) (candidates r3 n c)"
    by (simp add: stable)
  then have "\<exists>as bs cs. getComponentMapping reg n c =
      as @ mi\<lparr>confidence := k\<rparr> # bs @ mj\<lparr>confidence := k\<rparr> # cs"
    by (rule filter_two)
  then show ?thesis using assms(5) by (simp add: mi_def mj_def k_def)
qed


lemma best:
  assumes "getComponentMapping reg n c = m # rest"
  shows "\<exists>as bs. candidates reg n c = as @ m # bs
           \<and> (\<forall>a\<in>set as. confidence a < confidence m)
           \<and> (\<forall>b\<in>set bs. confidence b \<le> confidence m)"
proof -
  have "sorted (map (\<lambda>m. - confidence m) (m # rest))"
    using sorted_desc[of reg n c] assms by simp
  then have "\<forall>a \<in> set (m # rest). confidence a \<le> confidence m"
    by simp
  moreover have "set (candidates reg n c) = set (m # rest)"
    using set_getComponentMapping[of reg n c] assms by simp
  ultimately have le: "\<forall>a \<in> set (candidates reg n c). confidence a \<le> confidence m"
    by blast
  have "filter (\<lambda>a. confidence a = confidence m) (candidates reg n c)
          = m # filter (\<lambda>a. confidence a = confidence m) rest"
    using stable[of "confidence m" reg n c] assms by simp
  then obtain as bs where split: "candidates reg n c = as @ m # bs"
      and ne: "\<forall>a\<in>set as. confidence a \<noteq> confidence m"
    unfolding filter_eq_Cons_iff by blast
  have "\<forall>a\<in>set as. confidence a < confidence m"
  proof
    fix a assume a: "a \<in> set as"
    then have "confidence a \<le> confidence m" using le split by simp
    moreover have "confidence a \<noteq> confidence m" using ne a by blast
    ultimately show "confidence a < confidence m" by linarith
  qed
  moreover have "\<forall>b\<in>set bs. confidence b \<le> confidence m"
    using le split by simp
  ultimately show ?thesis using split by blast
qed

lemma first_hit_unique:
  assumes "as @ m # bs = cs @ e # ds"
    and "\<forall>a\<in>set as. \<not> P a" "P m" "\<forall>a\<in>set cs. \<not> P a" "P e"
  shows "as = cs \<and> m = e"
proof -
  have "takeWhile (\<lambda>a. \<not> P a) (as @ m # bs) = as"
    using assms(2,3) by (simp add: takeWhile_tail)
  moreover have "takeWhile (\<lambda>a. \<not> P a) (cs @ e # ds) = cs"
    using assms(4,5) by (simp add: takeWhile_tail)
  ultimately have "as = cs" using assms(1) by simp
  then show ?thesis using assms(1) by simp
qed

lemma candidates_take:
  assumes "i < length reg" "20 < accumulate (reg ! i) n c"
  shows "candidates reg n c = candidates (take i reg) n c
           @ (reg ! i)\<lparr>confidence := min (accumulate (reg ! i) n c) 100\<rparr>
           # candidates (drop (Suc i) reg) n c"
proof -
  have "reg = take i reg @ reg ! i # drop (Suc i) reg"
    using assms(1) by (simp add: id_take_nth_drop)
  then have "candidates reg n c = candidates (take i reg @ reg ! i # drop (Suc i) reg) n c"
    by simp
  then show ?thesis using assms(2) by (simp add: candidates_append Let_def)
qed

lemma selected:
  assumes "i < length reg" "20 < accumulate (reg ! i) n c"
    and top: "\<forall>mp\<in>set reg. 20 < accumulate mp n c \<longrightarrow>
                min (accumulate mp n c) 100 \<le> min (accumulate (reg ! i) n c) 100"
    and first: "\<forall>p<i. 20 < accumulate (reg ! p) n c \<longrightarrow> min (accumulate (reg ! p) n c) 100 < min (accumulate (reg ! i) n c) 100"
  shows "\<exists>rest. getComponentMapping reg n c = (reg ! i)\<lparr>confidence := min (accumulate (reg ! i) n c) 100\<rparr> # rest"
proof -
  define k where "k = min (accumulate (reg ! i) n c) 100"
  define e where "e = (reg ! i)\<lparr>confidence := k\<rparr>"
  have split: "candidates reg n c = candidates (take i reg) n c @ e # candidates (drop (Suc i) reg) n c"
    using candidates_take[OF assms(1,2)] by (simp add: e_def k_def)
  have all_le: "\<forall>a\<in>set (candidates reg n c). confidence a \<le> k"
  proof
    fix a assume "a \<in> set (candidates reg n c)"
    then obtain mp where mp: "mp \<in> set reg" "20 < accumulate mp n c"
        "a = mp\<lparr>confidence := min (accumulate mp n c) 100\<rparr>"
      by (auto simp: candidates_set)
    then have "min (accumulate mp n c) 100 \<le> min (accumulate (reg ! i) n c) 100"
      using top by blast
    then show "confidence a \<le> k" using mp(3) by (simp add: k_def)
  qed
  have before: "\<forall>a\<in>set (candidates (take i reg) n c). confidence a \<noteq> k"
  proof
    fix a assume "a \<in> set (candidates (take i reg) n c)"
    then obtain mp where mp: "mp \<in> set (take i reg)" "20 < accumulate mp n c"
        "a = mp\<lparr>confidence := min (accumulate mp n c) 100\<rparr>"
      by (auto simp: candidates_set)
    from mp(1) obtain p where "p < i" "mp = reg ! p"
      using assms(1) by (auto simp: in_set_conv_nth)
    then show "confidence a \<noteq> k" using first mp(2,3) by (auto simp: k_def)
  qed
  have "e \<in> set (getComponentMapping reg n c)"
    using split by (simp add: set_getComponentMapping)
  then obtain m rest where G: "getComponentMapping reg n c = m # rest"
    by (cases "getComponentMapping reg n c") auto
  from best[OF G] obtain as bs where ab: "candidates reg n c = as @ m # bs"
      "\<forall>a\<in>set as. confidence a < confidence m" "\<forall>b\<in>set bs. confidence b \<le> confidence m"
    by blast
  have "confidence e \<le> confidence m"
    using ab split by (metis in_set_conv_decomp le_less set_ConsD set_append UnE)
  moreover have "confidence m \<le> k" using all_le ab(1) by simp
  moreover have "confidence e = k" by (simp add: e_def)
  ultimately have cm: "confidence m = k" by simp
  have "as = candidates (take i reg) n c \<and> m = e"
  proof (rule first_hit_unique[where P = "\<lambda>a. confidence a = k"])
    show "as @ m # bs = candidates (take i reg) n c @ e # candidates (drop (Suc i) reg) n c"
      using ab(1) split by simp
    show "\<forall>a\<in>set as. confidence a \<noteq> k" using ab(2) cm by auto
    show "confidence m = k" by (rule cm)
    show "\<forall>a\<in>set (candidates (take i reg) n c). confidence a \<noteq> k" by (rule before)
    show "confidence e = k" by (simp add: e_def)
  qed
  then show ?thesis using G by (simp add: e_def k_def)
qed

subsection \<open>Mapping engine: claims\<close>

lemma login_frame_mapping:
  "map (\<lambda>m. (antdComponent m, confidence m))
     (getComponentMapping initializeComponentMappings login_frame None)
   = [(''Input'', 100), (''Card'', 100), (''div'', 30)]"
  by code_simp

lemma plain_frame_mapping:
  "map (\<lambda>m. (antdComponent m, confidence m))
     (getComponentMapping initializeComponentMappings plain_frame None)
   = [(''Input'', 30), (''Card'', 30), (''div'', 30)]"
  by code_simp

text \<open>
  C1. Whenever two registry entries both clear the threshold for a node and end with the
  same confidence (the accumulated sum capped at 100, which is what the list is sorted on),
  the entry registered earlier occurs before the other in the list returned by
  \<open>getComponentMapping\<close>; this covers entries that accumulate equal sums and entries made
  equal by the cap. When moreover no candidate has a higher confidence and no entry
  registered before it reaches the same confidence, it is the head of the list, which is
  the \<open>bestMapping\<close> that \<open>processComponent\<close> selects.
\<close>

theorem tie_break_registration_order:
  assumes "i < j" and "j < length reg"
    and "20 < accumulate (reg ! i) n c" and "20 < accumulate (reg ! j) n c"
    and "min (accumulate (reg ! i) n c) 100 = min (accumulate (reg ! j) n c) 100"
  shows "(\<exists>as bs cs. getComponentMapping reg n c =
            as @ (reg ! i)\<lparr>confidence := min (accumulate (reg ! i) n c) 100\<rparr>
             # bs @ (reg ! j)\<lparr>confidence := min (accumulate (reg ! j) n c) 100\<rparr> # cs)
       \<and> ((\<forall>mp\<in>set reg. 20 < accumulate mp n c \<longrightarrow>
               min (accumulate mp n c) 100 \<le> min (accumulate (reg ! i) n c) 100)
            \<and> (\<forall>p<i. 20 < accumulate (reg ! p) n c \<longrightarrow>
                 min (accumulate (reg ! p) n c) 100 < min (accumulate (reg ! i) n c) 100)
          \<longrightarrow> (\<exists>rest. getComponentMapping reg n c =
                 (reg ! i)\<lparr>confidence := min (accumulate (reg ! i) n c) 100\<rparr> # rest))"
proof (intro conjI impI)
  show "\<exists>as bs cs. getComponentMapping reg n c =
            as @ (reg ! i)\<lparr>confidence := min (accumulate (reg ! i) n c) 100\<rparr>
             # bs @ (reg ! j)\<lparr>confidence := min (accumulate (reg ! j) n c) 100\<rparr> # cs"
    using assms by (rule tie)
next
  assume h: "(\<forall>mp\<in>set reg. 20 < accumulate mp n c \<longrightarrow>
               min (accumulate mp n c) 100 \<le> min (accumulate (reg ! i) n c) 100)
            \<and> (\<forall>p<i. 20 < accumulate (reg ! p) n c \<longrightarrow>
                 min (accumulate (reg ! p) n c) 100 < min (accumulate (reg ! i) n c) 100)"
  have "i < length reg" using assms(1,2) by simp
  then show "\<exists>rest. getComponentMapping reg n c =
                 (reg ! i)\<lparr>confidence := min (accumulate (reg ! i) n c) 100\<rparr> # rest"
    using assms(3) h by (intro selected) blast+
qed

text \<open>
  The witness is a tie made by the cap: on the frame \<open>Login INPUT Card\<close> the \<open>Input\<close>
  entry accumulates 155 and the \<open>Card\<close> entry 180; both are returned with confidence 100,
  \<open>Input\<close> first.
\<close>

theorem tie_break_registration_order_witness:
  "(1::nat) < 2 \<and> 2 < length initializeComponentMappings
   \<and> accumulate (initializeComponentMappings ! 1) login_frame None = 155
   \<and> accumulate (initializeComponentMappings ! 2) login_frame None = 180
   \<and> (\<exists>as bs cs. getComponentMapping initializeComponentMappings login_frame None =
          as @ input_mapping\<lparr>confidence := 100\<rparr> # bs @ card_mapping\<lparr>confidence := 100\<rparr> # cs)
   \<and> (\<exists>rest. getComponentMapping initializeComponentMappings login_frame None =
          input_mapping\<lparr>confidence := 100\<rparr> # rest)"
proof -
  let ?reg = initializeComponentMappings
  have i: "?reg ! 1 = input_mapping" and j: "?reg ! 2 = card_mapping"
    by (simp_all add: initializeComponentMappings_def)
  have h1: "(1::nat) < 2" by simp
  have h2: "2 < length ?reg" by (simp add: initializeComponentMappings_def)
  have ai: "accumulate input_mapping login_frame None = 155"
    by code_simp
  have aj: "accumulate card_mapping login_frame None = 180"
    by code_simp
  have ab: "accumulate button_mapping login_frame None = 0"
    by code_simp
  have at: "accumulate text_mapping login_frame None = 0"
    by code_simp
  have ad: "accumulate div_mapping login_frame None = 30"
    by code_simp
  have h3: "20 < accumulate (?reg ! 1) login_frame None" unfolding i ai by simp
  have h4: "20 < accumulate (?reg ! 2) login_frame None" unfolding j aj by simp
  have h5: "min (accumulate (?reg ! 1) login_frame None) 100
          = min (accumulate (?reg ! 2) login_frame None) 100"
    unfolding i j ai aj by simp
  have h6: "\<forall>mp\<in>set ?reg. 20 < accumulate mp login_frame None \<longrightarrow>
               min (accumulate mp login_frame None) 100
                 \<le> min (accumulate (?reg ! 1) login_frame None) 100"
    unfolding i ai by (simp add: initializeComponentMappings_def ai aj ab at ad)
  have h7: "\<forall>p<1. 20 < accumulate (?reg ! p) login_frame None \<longrightarrow>
                 min (accumulate (?reg ! p) login_frame None) 100
                   < min (accumulate (?reg ! 1) login_frame None) 100"
    by (simp add: initializeComponentMappings_def ab)
  have "(\<exists>as bs cs. getComponentMapping ?reg login_frame None =
            as @ (?reg ! 1)\<lparr>confidence := min (accumulate (?reg ! 1) login_frame None) 100\<rparr>
             # bs @ (?reg ! 2)\<lparr>confidence := min (accumulate (?reg ! 2) login_frame None) 100\<rparr> # cs)
       \<and> (\<exists>rest. getComponentMapping ?reg login_frame None =
                 (?reg ! 1)\<lparr>confidence := min (accumulate (?reg ! 1) login_frame None) 100\<rparr> # rest)"
    using tie_break_registration_order[OF h1 h2 h3 h4 h5] h6 h7 by blast
  then have "(\<exists>as bs cs. getComponentMapping ?reg login_frame None =
          as @ input_mapping\<lparr>confidence := 100\<rparr> # bs @ card_mapping\<lparr>confidence := 100\<rparr> # cs)
   \<and> (\<exists>rest. getComponentMapping ?reg login_frame None =
          input_mapping\<lparr>confidence := 100\<rparr> # rest)"
    unfolding i j ai aj by simp
  moreover have "accumulate (?reg ! 1) login_frame None = 155" unfolding i by (rule ai)
  moreover have "accumulate (?reg ! 2) login_frame None = 180" unfolding j by (rule aj)
  moreover note h1 h2
  ultimately show ?thesis by blast
qed

text \<open>
  C2. Every entry returned by \<open>getComponentMapping\<close> is a registry entry carrying its
  accumulated confidence capped at 100; that confidence is greater than 20, at most 100 and
  not negative. The accumulated confidence is 30 for a type match plus 40 for a name match
  plus the weights of the rules that evaluate to true. When no registry entry accumulates
  more than 20, the returned list is empty.
\<close>

theorem confidence_range:
  "(\<forall>m\<in>set (getComponentMapping reg n c).
       20 < confidence m \<and> confidence m \<le> 100 \<and> 0 \<le> confidence m
       \<and> (\<exists>mp\<in>set reg. m = mp\<lparr>confidence := min (accumulate mp n c) 100\<rparr>))
   \<and> ((\<forall>mp\<in>set reg. accumulate mp n c \<le> 20) \<longrightarrow> getComponentMapping reg n c = [])
   \<and> (\<forall>mp. accumulate mp n c =
         (if figmaType mp = pc_type n then 30 else 0)
         + (if (case figmaName mp of None \<Rightarrow> False
                | Some fname \<Rightarrow> fname \<noteq> [] \<and>
                    includes_str (case pc_name n of None \<Rightarrow> [] | Some s \<Rightarrow> toLowerCase s) fname)
            then 40 else 0)
         + sum_list (map weight (filter (\<lambda>r. evaluateRule r n c) (rules mp))))"
proof (intro conjI ballI impI allI)
  fix m assume "m \<in> set (getComponentMapping reg n c)"
  then obtain mp where mp: "mp \<in> set reg" "20 < accumulate mp n c"
      "m = mp\<lparr>confidence := min (accumulate mp n c) 100\<rparr>"
    by (auto simp: set_getComponentMapping candidates_set)
  show "20 < confidence m" using mp(2,3) by simp
  show "confidence m \<le> 100" using mp(3) by simp
  show "0 \<le> confidence m" using mp(2,3) by simp
  show "\<exists>mp\<in>set reg. m = mp\<lparr>confidence := min (accumulate mp n c) 100\<rparr>"
    using mp(1,3) by blast
next
  assume none: "\<forall>mp\<in>set reg. accumulate mp n c \<le> 20"
  have "candidates reg n c = []"
    using none by (induction reg) (simp_all add: Let_def)
  then show "getComponentMapping reg n c = []"
    by (simp add: getComponentMapping_def sort_by_confidence_def)
next
  fix mp show "accumulate mp n c =
         (if figmaType mp = pc_type n then 30 else 0)
         + (if (case figmaName mp of None \<Rightarrow> False
                | Some fname \<Rightarrow> fname \<noteq> [] \<and>
                    includes_str (case pc_name n of None \<Rightarrow> [] | Some s \<Rightarrow> toLowerCase s) fname)
            then 40 else 0)
         + sum_list (map weight (filter (\<lambda>r. evaluateRule r n c) (rules mp)))"
    by (rule accumulate_sum)
qed

theorem confidence_range_witness:
  "div_mapping\<lparr>confidence := 30\<rparr>
      \<in> set (getComponentMapping initializeComponentMappings plain_frame None)
   \<and> 20 < confidence (div_mapping\<lparr>confidence := 30\<rparr>)
   \<and> confidence (div_mapping\<lparr>confidence := 30\<rparr>) \<le> 100
   \<and> accumulate button_mapping plain_rectangle None \<le> 20
   \<and> accumulate input_mapping plain_rectangle None \<le> 20
   \<and> accumulate card_mapping plain_rectangle None \<le> 20
   \<and> accumulate text_mapping plain_rectangle None \<le> 20
   \<and> accumulate div_mapping plain_rectangle None \<le> 20
   \<and> getComponentMapping initializeComponentMappings plain_rectangle None = []"
proof -
  have mem: "div_mapping\<lparr>confidence := 30\<rparr>
      \<in> set (getComponentMapping initializeComponentMappings plain_frame None)"
    by code_simp
  have ab: "accumulate button_mapping plain_rectangle None = 0" by code_simp
  have ai: "accumulate input_mapping plain_rectangle None = 0" by code_simp
  have ac: "accumulate card_mapping plain_rectangle None = 0" by code_simp
  have at: "accumulate text_mapping plain_rectangle None = 0" by code_simp
  have ad: "accumulate div_mapping plain_rectangle None = 0" by code_simp
  have none: "\<forall>mp\<in>set initializeComponentMappings. accumulate mp plain_rectangle None \<le> 20"
    by (simp add: initializeComponentMappings_def ab ai ac at ad)
  have "20 < confidence (div_mapping\<lparr>confidence := 30\<rparr>)
      \<and> confidence (div_mapping\<lparr>confidence := 30\<rparr>) \<le> 100"
    using confidence_range[of initializeComponentMappings plain_frame None, THEN conjunct1] mem
    by blast
  moreover have "getComponentMapping initializeComponentMappings plain_rectangle None = []"
    using confidence_range[of initializeComponentMappings plain_rectangle None,
        THEN conjunct2, THEN conjunct1] none
    by blast
  ultimately show ?thesis using mem by (simp add: ab ai ac at ad)
qed

text \<open>
  C10. For every node whose type tag is \<open>FRAME\<close>, whatever its name, styling and
  children, \<open>getComponentMapping\<close> over the start-up registry returns a non-empty list:
  the fallback entry targeting \<open>div\<close> accumulates exactly 30 from the type match, which
  exceeds the threshold of 20, and is returned with confidence 30.
\<close>

theorem frame_never_unmappable:
  assumes "pc_type n = ''FRAME''"
  shows "accumulate div_mapping n c = 30
       \<and> div_mapping\<lparr>confidence := 30\<rparr>
            \<in> set (getComponentMapping initializeComponentMappings n c)
       \<and> getComponentMapping initializeComponentMappings n c \<noteq> []"
proof -
  have acc: "accumulate div_mapping n c = 30"
    using assms by (simp add: accumulate_def div_mapping_def mk_rule_def evaluateRule_def)
  have "div_mapping \<in> set initializeComponentMappings"
    by (simp add: initializeComponentMappings_def)
  then have mem: "div_mapping\<lparr>confidence := 30\<rparr>
            \<in> set (getComponentMapping initializeComponentMappings n c)"
    unfolding set_getComponentMapping candidates_set using acc by force
  then have "getComponentMapping initializeComponentMappings n c \<noteq> []" by auto
  with acc mem show ?thesis by simp
qed

theorem frame_never_unmappable_witness:
  "pc_type plain_frame = ''FRAME''
   \<and> accumulate div_mapping plain_frame None = 30
   \<and> div_mapping\<lparr>confidence := 30\<rparr>
        \<in> set (getComponentMapping initializeComponentMappings plain_frame None)
   \<and> getComponentMapping initializeComponentMappings plain_frame None \<noteq> []"
proof -
  have h: "pc_type plain_frame = ''FRAME''" by (simp add: plain_frame_def)
  show ?thesis using frame_never_unmappable[OF h, of None] h by simp
qed

subsection \<open>Parser: colours and layout\<close>

text \<open>Rounding to the nearest representable number.\<close>

lemma round_half_even_nonneg: "0 \<le> a \<Longrightarrow> 0 \<le> round_half_even a s"
  by (simp add: round_half_even_def Let_def pos_imp_zdiv_nonneg_iff)

lemma round_half_even_le:
  assumes "0 \<le> a" and "a \<le> N * 2 ^ s"
  shows "round_half_even a s \<le> N"
proof -
  let ?d = "a div 2 ^ s" and ?r = "a mod 2 ^ s"
  have a: "a = ?d * 2 ^ s + ?r" by (rule div_mult_mod_eq[symmetric])
  have r: "0 \<le> ?r" "?r < 2 ^ s" by simp_all
  have d: "?d \<le> N"
  proof -
    have "?d \<le> (N * 2 ^ s) div 2 ^ s" using assms(2) by (rule zdiv_mono1) simp
    then show ?thesis by simp
  qed
  show ?thesis
  proof (cases "?d = N")
    case True
    then have "?r \<le> 0" using a assms(2) by simp
    then have "?r = 0" using r by simp
    then show ?thesis using True by (simp add: round_half_even_def Let_def)
  next
    case False
    then have "?d + 1 \<le> N" using d by simp
    then show ?thesis using d by (simp add: round_half_even_def Let_def)
  qed
qed

lemma near_below: "0 \<le> r \<Longrightarrow> 2 * r \<le> p \<Longrightarrow> 2 * \<bar>- r\<bar> \<le> (p::int)"
  by simp

lemma near_above: "r < p \<Longrightarrow> p \<le> 2 * r \<Longrightarrow> 2 * \<bar>p - r\<bar> \<le> (p::int)"
  by simp

lemma round_half_even_near:
  "2 * \<bar>round_half_even a s * 2 ^ s - a\<bar> \<le> 2 ^ s"
proof -
  let ?d = "a div 2 ^ s" and ?r = "a mod 2 ^ s"
  have a: "a = ?d * 2 ^ s + ?r" by (rule div_mult_mod_eq[symmetric])
  have r: "0 \<le> ?r" "?r < 2 ^ s" by simp_all
  have 1: "2 * \<bar>?d * 2 ^ s - a\<bar> \<le> 2 ^ s" if "2 * ?r \<le> 2 ^ s"
  proof -
    have e: "?d * 2 ^ s - a = - ?r" using a by linarith
    show ?thesis unfolding e using r(1) that by (rule near_below)
  qed
  have 2: "2 * \<bar>(?d + 1) * 2 ^ s - a\<bar> \<le> 2 ^ s" if "2 ^ s \<le> 2 * ?r"
  proof -
    have e: "(?d + 1) * 2 ^ s - a = 2 ^ s - ?r" using a by (simp add: algebra_simps)
    show ?thesis unfolding e using r(2) that by (rule near_above)
  qed
  show ?thesis
    using 1 2 by (simp add: round_half_even_def Let_def)
qed

lemma bitlen_le:
  assumes "0 < a" and "a < 2 ^ k"
  shows "bitlen a \<le> int k"
proof -
  have "(2::int) ^ nat (bitlen a - 1) \<le> a" using bitlen_bounds[OF assms(1)] by simp
  then have "(2::int) ^ nat (bitlen a - 1) < 2 ^ k" using assms(2) by (rule order_le_less_trans)
  then have "nat (bitlen a - 1) < k" by (rule power_less_imp_less_exp[rotated]) simp
  then show ?thesis by simp
qed


lemma double_val_neg: "e < 0 \<Longrightarrow> double_val (Double m e) = of_int m / 2 ^ nat (- e)"
  by (simp add: double_val_def)

lemma below_overflow: "v \<le> 255 \<Longrightarrow> \<not> (2 ^ 1024 \<le> (v::real))"
proof -
  have "(255::real) < 2 ^ 8" by simp
  also have "(2::real) ^ 8 \<le> 2 ^ 1024" by (rule power_increasing) simp_all
  finally show "v \<le> 255 \<Longrightarrow> \<not> (2 ^ 1024 \<le> v)" by linarith
qed

lemma fl_scaled:
  assumes m: "0 \<le> m" and le: "double_val (Double m e) \<le> 255"
  shows "\<exists>p. fl m e = Finite p \<and> 0 \<le> double_val p \<and> double_val p \<le> 255
           \<and> \<bar>double_val p - double_val (Double m e)\<bar> \<le> 1 / 2 ^ 46"
proof -
  define q where "q = max (bitlen m + e - 53) (- 1074)"
  have am: "\<bar>m\<bar> = m" using m by simp
  have nm: "\<not> m < 0" using m by simp
  show ?thesis
  proof (cases "q \<le> e")
    case True
    have nonneg: "0 \<le> double_val (Double m e)" using m by (simp add: double_val_def)
    have "fl m e = Finite (Double m e)"
      using True nm below_overflow[OF le] unfolding fl_def Let_def am q_def
      by (simp only: if_True if_False)
    then show ?thesis using le nonneg by simp
  next
    case False
    then have eq: "e < q" by simp
    have e0: "e < 0"
    proof (rule ccontr)
      assume "\<not> e < 0"
      then have e: "0 \<le> e" by simp
      then have q: "q = bitlen m + e - 53" using eq by (simp add: q_def max_def split: if_splits)
      then have big: "53 < bitlen m" using eq by simp
      then have pos: "0 < m" using m by (cases "m = 0") simp_all
      have "of_int m * (1::real) \<le> of_int m * 2 ^ nat e"
        using m by (intro mult_left_mono) simp_all
      also have "\<dots> \<le> 255" using le e by (simp add: double_val_def)
      finally have "m \<le> 255" by simp
      then have "m < 2 ^ 8" by simp
      then have "bitlen m \<le> int 8" using pos by (intro bitlen_le)
      then show False using big by simp
    qed
    define n where "n = nat (- e)"
    have mle: "m \<le> 255 * 2 ^ n"
    proof -
      have "of_int m / 2 ^ n \<le> (255::real)" using le e0 by (simp add: double_val_neg n_def)
      then have "(of_int m :: real) \<le> 255 * 2 ^ n" by (simp add: field_simps)
      then have "(of_int m :: real) \<le> of_int (255 * 2 ^ n)" by simp
      then show ?thesis by (simp only: of_int_le_iff)
    qed
    have q45: "q \<le> - 45"
    proof (cases "m = 0")
      case True
      then show ?thesis using eq by (simp add: q_def max_def split: if_splits)
    next
      case False
      then have pos: "0 < m" using m by simp
      have "(255::int) * 2 ^ n < 2 ^ 8 * 2 ^ n" by simp
      with mle have "m < 2 ^ 8 * 2 ^ n" by (rule order_le_less_trans)
      then have "m < 2 ^ (8 + n)" by (simp only: power_add)
      then have "bitlen m \<le> int (8 + n)" using pos by (intro bitlen_le)
      then show ?thesis using e0 by (simp add: q_def n_def)
    qed
    define t where "t = nat (- q)"
    define s where "s = nat (q - e)"
    define k where "k = round_half_even m s"
    have n: "n = t + s" using eq q45 e0 by (simp add: n_def t_def s_def)
    have t45: "45 \<le> t" using q45 by (simp add: t_def)
    have k0: "0 \<le> k" using m by (simp add: k_def round_half_even_nonneg)
    have "m \<le> (255 * 2 ^ t) * 2 ^ s" using mle by (simp add: n power_add)
    with m have kle: "k \<le> 255 * 2 ^ t" unfolding k_def by (rule round_half_even_le)
    have val: "double_val (Double k q) = of_int k / 2 ^ t"
      using q45 by (simp add: double_val_neg t_def)
    have v0: "0 \<le> double_val (Double k q)" using k0 by (simp add: val)
    have v255: "double_val (Double k q) \<le> 255"
    proof -
      have "(of_int k :: real) \<le> of_int (255 * 2 ^ t)" using kle by (simp only: of_int_le_iff)
      then show ?thesis by (simp add: val field_simps)
    qed
    have fl: "fl m e = Finite (Double k q)"
      using False nm below_overflow[OF v255] unfolding fl_def Let_def am k_def s_def q_def
      by (simp only: if_True if_False)
    have near: "\<bar>double_val (Double k q) - double_val (Double m e)\<bar> \<le> 1 / 2 ^ 46"
    proof -
      have "2 * \<bar>k * 2 ^ s - m\<bar> \<le> 2 ^ s" unfolding k_def by (rule round_half_even_near)
      then have "(of_int (2 * \<bar>k * 2 ^ s - m\<bar>) :: real) \<le> of_int (2 ^ s)"
        by (simp only: of_int_le_iff)
      then have i: "2 * \<bar>of_int k * 2 ^ s - (of_int m :: real)\<bar> \<le> 2 ^ s" by simp
      have "double_val (Double k q) - double_val (Double m e)
              = (of_int k * 2 ^ s - of_int m) / 2 ^ n"
        using e0 by (simp add: val double_val_neg n_def[symmetric] n power_add field_simps)
      then have "\<bar>double_val (Double k q) - double_val (Double m e)\<bar>
              = \<bar>of_int k * 2 ^ s - (of_int m :: real)\<bar> / 2 ^ n"
        by (simp add: abs_divide)
      also have "\<dots> \<le> (2 ^ s / 2) / 2 ^ n"
        using i by (intro divide_right_mono) simp_all
      also have "\<dots> = 1 / 2 ^ (Suc t)" by (simp add: n power_add)
      also have "\<dots> \<le> 1 / 2 ^ 46"
        using t45 by (intro divide_left_mono power_increasing) simp_all
      finally show ?thesis .
    qed
    show ?thesis using fl v0 v255 near by simp
  qed
qed

lemma hex_digits_byte:
  "k < 256 \<Longrightarrow> hex_digits k = (if k < 16 then [hex_digit k] else [hex_digit (k div 16), hex_digit (k mod 16)])"
  by (subst hex_digits.simps) (simp add: less_mult_imp_div_less)

lemma pad_hex_byte:
  assumes "0 \<le> v" "v \<le> 255"
  shows "pad_hex v = [hex_digit (nat v div 16), hex_digit (nat v mod 16)]"
proof -
  have "nat v < 256" using assms by simp
  then show ?thesis using assms
    by (simp add: pad_hex_def toString16_def hex_digits_byte Let_def hex_digit_def del: hex_digits.simps)
qed

lemma significand_nonneg: "0 \<le> double_val c \<Longrightarrow> 0 \<le> significand c"
proof (cases c)
  case (Double m e)
  have pos: "(0::real) < 2 ^ n" for n by simp
  assume "0 \<le> double_val c"
  then have "0 \<le> (of_int m :: real)"
    using pos[of "nat e"] pos[of "nat (- e)"]
    by (simp add: Double double_val_def zero_le_mult_iff zero_le_divide_iff not_le[symmetric]
          split: if_splits)
  then show ?thesis by (simp add: Double)
qed

lemma double_val_times_255:
  "double_val (Double (significand c * 255) (exponent c + 0)) = double_val c * 255"
  by (simp add: double_val_def)

lemma scaled_channel:
  assumes "0 \<le> double_val c" and "double_val c \<le> 1"
  shows "\<exists>p. js_mul c (Double 255 0) = Finite p \<and> 0 \<le> double_val p \<and> double_val p \<le> 255
           \<and> \<bar>double_val p - double_val c * 255\<bar> \<le> 1 / 2 ^ 46"
proof -
  have m: "0 \<le> significand c * 255" using assms(1) by (simp add: significand_nonneg)
  have le: "double_val (Double (significand c * 255) (exponent c + 0)) \<le> 255"
    unfolding double_val_times_255 using assms(2) by simp
  show ?thesis
    using fl_scaled[OF m le] unfolding double_val_times_255 by (simp add: js_mul_def)
qed

lemma round_byte:
  assumes "0 \<le> v" and "v \<le> 255"
  shows "0 \<le> Math_round v \<and> Math_round v \<le> 255"
  using assms unfolding Math_round_def by (simp add: floor_le_iff le_floor_iff)

lemma channel_hex_digits:
  assumes "0 \<le> double_val c \<and> double_val c \<le> 1"
  shows "\<exists>p. js_mul c (Double 255 0) = Finite p
           \<and> \<bar>double_val p - double_val c * 255\<bar> \<le> 1 / 2 ^ 46
           \<and> channel_hex c = [hex_digit (nat \<lfloor>double_val p + 1 / 2\<rfloor> div 16),
                               hex_digit (nat \<lfloor>double_val p + 1 / 2\<rfloor> mod 16)]"
proof -
  obtain p where p: "js_mul c (Double 255 0) = Finite p" "0 \<le> double_val p" "double_val p \<le> 255"
      "\<bar>double_val p - double_val c * 255\<bar> \<le> 1 / 2 ^ 46"
    using scaled_channel[of c] assms by blast
  have "0 \<le> Math_round (double_val p) \<and> Math_round (double_val p) \<le> 255"
    using p(2,3) by (rule round_byte)
  then have "pad_hex (Math_round (double_val p))
               = [hex_digit (nat (Math_round (double_val p)) div 16),
                  hex_digit (nat (Math_round (double_val p)) mod 16)]"
    by (intro pad_hex_byte) simp_all
  then have "channel_hex c = [hex_digit (nat \<lfloor>double_val p + 1 / 2\<rfloor> div 16),
                               hex_digit (nat \<lfloor>double_val p + 1 / 2\<rfloor> mod 16)]"
    by (simp add: channel_hex_def p(1) Math_round_def)
  then show ?thesis using p(1,4) by blast
qed

lemma bitlen_255: "bitlen 255 = 8"
  by code_simp

lemma js_mul_one: "js_mul (Double 1 0) (Double 255 0) = Finite (Double 255 0)"
  by (simp add: js_mul_def fl_def Let_def double_val_def bitlen_255)

lemma js_mul_zero: "js_mul (Double 0 0) (Double 255 0) = Finite (Double 0 0)"
  by (simp add: js_mul_def fl_def Let_def double_val_def)

lemma js_mul_half: "js_mul (Double 1 (- 1)) (Double 255 0) = Finite (Double 255 (- 1))"
  by (simp add: js_mul_def fl_def Let_def double_val_def bitlen_255)

lemma js_mul_0_3: "js_mul double_0_3 (Double 255 0) = Finite (Double 5383208929591296 (- 46))"
proof -
  have b: "bitlen (5404319552844595 * 255) = 61" by code_simp
  have r: "round_half_even (5404319552844595 * 255) 8 = 5383208929591296" by code_simp
  show ?thesis
    using b r by (simp add: js_mul_def double_0_3_def fl_def Let_def double_val_def)
qed

text \<open>
  C7. For a colour whose three channels are numbers between 0 and 1, \<open>colorToHex\<close> returns
  \<open>#\<close> followed by two hexadecimal digits per channel: the channel is scaled by 255 (the
  product the runtime computes, which is finite, lies between 0 and 255 and is within
  two to the power -46 of the exact product), the scaled value \<open>p\<close> is rounded to the nearest
  integer with a tie rounded up (\<open>\<lfloor>p + 1/2\<rfloor>\<close>), and the integer is written with two
  hexadecimal digits. The channel value 1 gives \<open>ff\<close>, 0 gives \<open>00\<close> and 1/2 gives \<open>80\<close>.
\<close>

theorem colorToHex_round_half_up:
  assumes "0 \<le> double_val (color_r color) \<and> double_val (color_r color) \<le> 1"
    and "0 \<le> double_val (color_g color) \<and> double_val (color_g color) \<le> 1"
    and "0 \<le> double_val (color_b color) \<and> double_val (color_b color) \<le> 1"
  shows "(\<exists>pr pg pb.
            js_mul (color_r color) (Double 255 0) = Finite pr
          \<and> js_mul (color_g color) (Double 255 0) = Finite pg
          \<and> js_mul (color_b color) (Double 255 0) = Finite pb
          \<and> \<bar>double_val pr - double_val (color_r color) * 255\<bar> \<le> 1 / 2 ^ 46
          \<and> \<bar>double_val pg - double_val (color_g color) * 255\<bar> \<le> 1 / 2 ^ 46
          \<and> \<bar>double_val pb - double_val (color_b color) * 255\<bar> \<le> 1 / 2 ^ 46
          \<and> colorToHex color =
               CHR ''#'' #
               [hex_digit (nat \<lfloor>double_val pr + 1 / 2\<rfloor> div 16),
                hex_digit (nat \<lfloor>double_val pr + 1 / 2\<rfloor> mod 16),
                hex_digit (nat \<lfloor>double_val pg + 1 / 2\<rfloor> div 16),
                hex_digit (nat \<lfloor>double_val pg + 1 / 2\<rfloor> mod 16),
                hex_digit (nat \<lfloor>double_val pb + 1 / 2\<rfloor> div 16),
                hex_digit (nat \<lfloor>double_val pb + 1 / 2\<rfloor> mod 16)])
       \<and> channel_hex (Double 1 0) = ''ff''
       \<and> channel_hex (Double 0 0) = ''00''
       \<and> channel_hex (Double 1 (- 1)) = ''80''"
proof -
  obtain pr where pr: "js_mul (color_r color) (Double 255 0) = Finite pr"
      "\<bar>double_val pr - double_val (color_r color) * 255\<bar> \<le> 1 / 2 ^ 46"
      "channel_hex (color_r color) = [hex_digit (nat \<lfloor>double_val pr + 1 / 2\<rfloor> div 16),
                                      hex_digit (nat \<lfloor>double_val pr + 1 / 2\<rfloor> mod 16)]"
    using channel_hex_digits[OF assms(1)] by blast
  obtain pg where pg: "js_mul (color_g color) (Double 255 0) = Finite pg"
      "\<bar>double_val pg - double_val (color_g color) * 255\<bar> \<le> 1 / 2 ^ 46"
      "channel_hex (color_g color) = [hex_digit (nat \<lfloor>double_val pg + 1 / 2\<rfloor> div 16),
                                      hex_digit (nat \<lfloor>double_val pg + 1 / 2\<rfloor> mod 16)]"
    using channel_hex_digits[OF assms(2)] by blast
  obtain pb where pb: "js_mul (color_b color) (Double 255 0) = Finite pb"
      "\<bar>double_val pb - double_val (color_b color) * 255\<bar> \<le> 1 / 2 ^ 46"
      "channel_hex (color_b color) = [hex_digit (nat \<lfloor>double_val pb + 1 / 2\<rfloor> div 16),
                                      hex_digit (nat \<lfloor>double_val pb + 1 / 2\<rfloor> mod 16)]"
    using channel_hex_digits[OF assms(3)] by blast
  have hex: "colorToHex color =
               CHR ''#'' #
               [hex_digit (nat \<lfloor>double_val pr + 1 / 2\<rfloor> div 16),
                hex_digit (nat \<lfloor>double_val pr + 1 / 2\<rfloor> mod 16),
                hex_digit (nat \<lfloor>double_val pg + 1 / 2\<rfloor> div 16),
                hex_digit (nat \<lfloor>double_val pg + 1 / 2\<rfloor> mod 16),
                hex_digit (nat \<lfloor>double_val pb + 1 / 2\<rfloor> div 16),
                hex_digit (nat \<lfloor>double_val pb + 1 / 2\<rfloor> mod 16)]"
    by (simp add: colorToHex_def pr(3) pg(3) pb(3))
  have 1: "channel_hex (Double 1 0) = ''ff''"
    by (simp add: channel_hex_def js_mul_one double_val_def Math_round_def pad_hex_def
          toString16_def hex_digit_def)
  have 2: "channel_hex (Double 0 0) = ''00''"
    by (simp add: channel_hex_def js_mul_zero double_val_def Math_round_def pad_hex_def
          toString16_def hex_digit_def)
  have 3: "channel_hex (Double 1 (- 1)) = ''80''"
    by (simp add: channel_hex_def js_mul_half double_val_def Math_round_def pad_hex_def
          toString16_def hex_digit_def)
  from pr(1,2) pg(1,2) pb(1,2) hex 1 2 3 show ?thesis by blast
qed

text \<open>
  The witness has the channels 1, 0.3 and 1/2. The number written 0.3 scales to exactly
  76.5, which rounds up to 77, so the colour is \<open>#ff4d80\<close>.
\<close>

theorem colorToHex_round_half_up_witness:
  "0 \<le> double_val (Double 1 0) \<and> double_val (Double 1 0) \<le> 1
   \<and> 0 \<le> double_val double_0_3 \<and> double_val double_0_3 \<le> 1
   \<and> 0 \<le> double_val (Double 1 (- 1)) \<and> double_val (Double 1 (- 1)) \<le> 1
   \<and> js_mul double_0_3 (Double 255 0) = Finite (Double 5383208929591296 (- 46))
   \<and> double_val (Double 5383208929591296 (- 46)) = 153 / 2
   \<and> colorToHex \<lparr>color_r = Double 1 0, color_g = double_0_3, color_b = Double 1 (- 1),
                   color_a = None\<rparr> = ''#ff4d80''"
proof -
  let ?c = "\<lparr>color_r = Double 1 0, color_g = double_0_3, color_b = Double 1 (- 1),
              color_a = None\<rparr>"
  have r: "0 \<le> double_val (Double 1 0) \<and> double_val (Double 1 0) \<le> 1"
    by (simp add: double_val_def)
  have g: "0 \<le> double_val double_0_3 \<and> double_val double_0_3 \<le> 1"
    by (simp add: double_val_def double_0_3_def)
  have b: "0 \<le> double_val (Double 1 (- 1)) \<and> double_val (Double 1 (- 1)) \<le> 1"
    by (simp add: double_val_def)
  have h1: "0 \<le> double_val (color_r ?c) \<and> double_val (color_r ?c) \<le> 1" using r by simp
  have h2: "0 \<le> double_val (color_g ?c) \<and> double_val (color_g ?c) \<le> 1" using g by simp
  have h3: "0 \<le> double_val (color_b ?c) \<and> double_val (color_b ?c) \<le> 1" using b by simp
  note mr = js_mul_one and mg = js_mul_0_3 and mb = js_mul_half
  have vr: "\<lfloor>double_val (Double 255 0) + 1 / 2\<rfloor> = 255" by (simp add: double_val_def)
  have vg0: "double_val (Double 5383208929591296 (- 46)) = 153 / 2" by (simp add: double_val_def)
  have vg: "\<lfloor>double_val (Double 5383208929591296 (- 46)) + 1 / 2\<rfloor> = 77" unfolding vg0 by simp
  have vb: "\<lfloor>double_val (Double 255 (- 1)) + 1 / 2\<rfloor> = 128" by (simp add: double_val_def)
  obtain pr pg pb where p: "js_mul (color_r ?c) (Double 255 0) = Finite pr"
      "js_mul (color_g ?c) (Double 255 0) = Finite pg"
      "js_mul (color_b ?c) (Double 255 0) = Finite pb"
      "colorToHex ?c =
               CHR ''#'' #
               [hex_digit (nat \<lfloor>double_val pr + 1 / 2\<rfloor> div 16),
                hex_digit (nat \<lfloor>double_val pr + 1 / 2\<rfloor> mod 16),
                hex_digit (nat \<lfloor>double_val pg + 1 / 2\<rfloor> div 16),
                hex_digit (nat \<lfloor>double_val pg + 1 / 2\<rfloor> mod 16),
                hex_digit (nat \<lfloor>double_val pb + 1 / 2\<rfloor> div 16),
                hex_digit (nat \<lfloor>double_val pb + 1 / 2\<rfloor> mod 16)]"
    using colorToHex_round_half_up[OF h1 h2 h3, THEN conjunct1] by blast
  have "pr = Double 255 0" using p(1) mr by simp
  moreover have "pg = Double 5383208929591296 (- 46)" using p(2) mg by simp
  moreover have "pb = Double 255 (- 1)" using p(3) mb by simp
  ultimately have "colorToHex ?c = ''#ff4d80''"
    using p(4) by (simp add: vr vg vb hex_digit_def)
  with r g b mg vg0 show ?thesis by blast
qed

text \<open>
  The statement of C8 for every node with children fails on a \<open>GROUP\<close> node: its first two
  children have geometry and lie side by side, and no axis is inferred.
\<close>

theorem flex_direction_counterexample:
  "fn_children group_two
     = Some [leaf ''1:2'' (Double 0 0) (Double 0 0), leaf ''1:3'' (Double 100 0) (Double 0 0)]
   \<and> absoluteBoundingBox (leaf ''1:2'' (Double 0 0) (Double 0 0)) \<noteq> None
   \<and> absoluteBoundingBox (leaf ''1:3'' (Double 100 0) (Double 0 0)) \<noteq> None
   \<and> js_sub (Double 0 0) (Double 100 0) = Finite (Double (- 100) 0)
   \<and> js_sub (Double 0 0) (Double 0 0) = Finite (Double 0 0)
   \<and> double_val (Double 0 0) < double_val (Double \<bar>- 100\<bar> 0)
   \<and> flexDirection (extractLayout group_two) \<noteq> Some Row
   \<and> flexDirection (extractLayout group_two) \<noteq> Some Column"
proof -
  have b: "bitlen 100 = 7" by code_simp
  have 1: "js_sub (Double 0 0) (Double 100 0) = Finite (Double (- 100) 0)"
    by (simp add: js_sub_def fl_def Let_def double_val_def b)
  have 2: "js_sub (Double 0 0) (Double 0 0) = Finite (Double 0 0)"
    by (simp add: js_sub_def fl_def Let_def double_val_def)
  have 3: "double_val (Double 0 0) < double_val (Double \<bar>- 100\<bar> 0)"
    by (simp add: double_val_def)
  have 4: "fn_children group_two
     = Some [leaf ''1:2'' (Double 0 0) (Double 0 0), leaf ''1:3'' (Double 100 0) (Double 0 0)]"
    by (simp add: group_two_def)
  have 5: "absoluteBoundingBox (leaf ''1:2'' (Double 0 0) (Double 0 0)) \<noteq> None"
    "absoluteBoundingBox (leaf ''1:3'' (Double 100 0) (Double 0 0)) \<noteq> None"
    by (simp_all add: leaf_def)
  have 6: "flexDirection (extractLayout group_two) = None"
    by (simp add: extractLayout_def group_two_def leaf_def)
  from 1 2 3 4 5 6 show ?thesis by simp
qed

text \<open>
  C8, amended. For a node with at least two children whose first two children both have a
  bounding box: when the node's type is \<open>FRAME\<close> or \<open>COMPONENT\<close>, the inferred
  \<open>flexDirection\<close> is \<open>row\<close> exactly when the absolute horizontal distance between
  the first two children exceeds the absolute vertical distance, and \<open>column\<close> otherwise,
  the two distances being the differences of the coordinates as the runtime computes them
  (each rounded to the nearest representable number); for a node of any other type no
  \<open>flexDirection\<close> is set.
\<close>

theorem flex_direction_inferred:
  assumes "fn_children node = Some (c1 # c2 # rest)"
    and "absoluteBoundingBox c1 = Some b1" and "absoluteBoundingBox c2 = Some b2"
  shows "flexDirection (extractLayout node) =
           (if fn_type node = ''FRAME'' \<or> fn_type node = ''COMPONENT''
            then Some (if js_less (Math_abs (js_sub (rect_y b1) (rect_y b2)))
                                  (Math_abs (js_sub (rect_x b1) (rect_x b2)))
                       then Row else Column)
            else None)"
  using assms by (simp add: extractLayout_def Let_def split: option.splits)

text \<open>
  The witness is a frame whose children sit at (23.4, 138) and (104.4, 57). The horizontal
  difference is computed as 81, the vertical difference is 81 as well, so the horizontal
  distance does not exceed the vertical one and the axis is \<open>column\<close>.
\<close>

theorem flex_direction_inferred_witness:
  "fn_children frame_diagonal
     = Some (leaf ''2:2'' double_23_4 (Double 138 0) # leaf ''2:3'' double_104_4 (Double 57 0) # [])
   \<and> absoluteBoundingBox (leaf ''2:2'' double_23_4 (Double 138 0))
        = Some \<lparr>rect_x = double_23_4, rect_y = Double 138 0,
                 rect_width = Double 10 0, rect_height = Double 10 0\<rparr>
   \<and> absoluteBoundingBox (leaf ''2:3'' double_104_4 (Double 57 0))
        = Some \<lparr>rect_x = double_104_4, rect_y = Double 57 0,
                 rect_width = Double 10 0, rect_height = Double 10 0\<rparr>
   \<and> js_sub double_23_4 double_104_4 = Finite (Double (- 5699868278390784) (- 46))
   \<and> double_val (Double (- 5699868278390784) (- 46)) = - 81
   \<and> js_sub (Double 138 0) (Double 57 0) = Finite (Double 81 0)
   \<and> flexDirection (extractLayout frame_diagonal) = Some Column"
proof -
  have h1: "fn_children frame_diagonal
     = Some (leaf ''2:2'' double_23_4 (Double 138 0) # leaf ''2:3'' double_104_4 (Double 57 0) # [])"
    by (simp add: frame_diagonal_def)
  have h2: "absoluteBoundingBox (leaf ''2:2'' double_23_4 (Double 138 0))
        = Some \<lparr>rect_x = double_23_4, rect_y = Double 138 0,
                 rect_width = Double 10 0, rect_height = Double 10 0\<rparr>"
    by (simp add: leaf_def)
  have h3: "absoluteBoundingBox (leaf ''2:3'' double_104_4 (Double 57 0))
        = Some \<lparr>rect_x = double_104_4, rect_y = Double 57 0,
                 rect_width = Double 10 0, rect_height = Double 10 0\<rparr>"
    by (simp add: leaf_def)
  have bx: "bitlen 22799473113563138 = 55" by code_simp
  have rx: "round_half_even 22799473113563138 2 = 5699868278390784" by code_simp
  have dx: "js_sub double_23_4 double_104_4 = Finite (Double (- 5699868278390784) (- 46))"
    using bx rx
    by (simp add: js_sub_def double_23_4_def double_104_4_def fl_def Let_def double_val_def)
  have vx: "double_val (Double (- 5699868278390784) (- 46)) = - 81"
    by (simp add: double_val_def)
  have by': "bitlen 81 = 7" by code_simp
  have dy: "js_sub (Double 138 0) (Double 57 0) = Finite (Double 81 0)"
    by (simp add: js_sub_def fl_def Let_def double_val_def by')
  have t: "fn_type frame_diagonal = ''FRAME''" by (simp add: frame_diagonal_def)
  have "flexDirection (extractLayout frame_diagonal) = Some Column"
    using flex_direction_inferred[OF h1 h2 h3]
    by (simp add: t dx dy double_val_def)
  with h1 h2 h3 dx vx dy show ?thesis by simp
qed

text \<open>Two children side by side in a frame give \<open>row\<close>.\<close>

lemma frame_two_row: "flexDirection (extractLayout frame_two) = Some Row"
proof -
  have b: "bitlen 100 = 7" by code_simp
  show ?thesis
    by (simp add: extractLayout_def frame_two_def leaf_def js_sub_def fl_def Let_def
          double_val_def b)
qed

subsection \<open>Code generator: fallback and absorbed failures\<close>

lemma startsWith_append: "startsWith (m @ b) m"
  by (simp add: startsWith_def)




text \<open>
  The ordinary path, for comparison: one frame whose catalogue entry is found is emitted as
  a self-closing tag inside the wrapper.
\<close>

lemma one_frame_synthesis:
  "includes_str (code (generateComponent sample_engine show_num div_analyzer one_frame_config)) ''<Input />''
   \<and> warnings (generateComponent sample_engine show_num div_analyzer one_frame_config) = []"
  by code_simp

text \<open>
  C5, amended. When the component list of the input is empty, \<open>generateComponent\<close> returns
  the fallback component of \<open>generateErrorComponent\<close> (an \<open>Alert\<close> whose description
  is \<open>No components found in Figma data\<close>), and the only diagnostic is the single warning
  \<open>Code generation failed: No components found in Figma data\<close>; no mapping is recorded.
\<close>

theorem no_components_fallback:
  assumes "components (figmaData config) = []"
  shows "generateComponent eng numToString analyzeComponents config =
           \<lparr>code = generateErrorComponent (componentName config)
                      ''No components found in Figma data'' (outputFormat config),
            importsList = [''React''],
            dependencies = [''react'', ''antd''],
            warnings = [''Code generation failed: No components found in Figma data''],
            mappings = []\<rparr>"
  using assms by (simp add: generateComponent_def generateComponent_try_def initial_result_def)

theorem no_components_fallback_witness:
  "components (figmaData empty_config) = []
   \<and> generateComponent sample_engine show_num no_analyzer empty_config =
           \<lparr>code = generateErrorComponent ''App'' ''No components found in Figma data'' Typescript,
            importsList = [''React''],
            dependencies = [''react'', ''antd''],
            warnings = [''Code generation failed: No components found in Figma data''],
            mappings = []\<rparr>"
proof -
  have h: "components (figmaData empty_config) = []" by (simp add: empty_config_def)
  show ?thesis
    using no_components_fallback[OF h, of sample_engine show_num no_analyzer] h
    by (simp add: empty_config_def)
qed

text \<open>
  The statement of C5 fails on the empty input: the code returned is not the component
  definition that emission produces for an empty list of configs, it renders an \<open>Alert\<close>.
\<close>

theorem empty_body_counterexample:
  "components (figmaData empty_config) = []
   \<and> code (generateComponent sample_engine show_num no_analyzer empty_config)
        \<noteq> formatCode (generateReactCode show_num ''App'' [] Typescript True) Typescript
   \<and> includes_str (code (generateComponent sample_engine show_num no_analyzer empty_config)) ''<Alert''"
  by code_simp










subsection \<open>Static validator: the pattern matcher\<close>



lemma star_iter_suffix:
  assumes step: "\<And>st st'. st' \<in> set (step st) \<Longrightarrow> \<exists>w. fst st = w @ fst st'"
  shows "st' \<in> set (star_iter n greedy step st) \<Longrightarrow> \<exists>w. fst st = w @ fst st'"
proof (induction n arbitrary: st)
  case 0
  then show ?case by simp
next
  case (Suc n)
  show ?case
  proof (cases "st' = st")
    case True
    then show ?thesis by simp
  next
    case False
    with Suc.prems obtain mid where mid: "mid \<in> set (step st)" "st' \<in> set (star_iter n greedy step mid)"
      by (auto simp: Let_def split: if_splits)
    from step[OF mid(1)] obtain w1 where "fst st = w1 @ fst mid" by blast
    moreover from Suc.IH[OF mid(2)] obtain w2 where "fst mid = w2 @ fst st'" by blast
    ultimately have "fst st = (w1 @ w2) @ fst st'" by simp
    then show ?thesis by blast
  qed
qed

lemma startsWith_split: "startsWith s w \<Longrightarrow> s = w @ drop (length w) s"
  unfolding startsWith_def by (metis append_take_drop_id)

lemma match_suffix:
  "st' \<in> set (match r st) \<Longrightarrow> \<exists>w. fst st = w @ fst st'"
proof (induction r arbitrary: st st')
  case (Lit c)
  then show ?case by (cases "fst st") (auto split: if_splits)
next
  case (Cls p)
  then show ?case by (cases "fst st") (auto split: if_splits)
next
  case Eps
  then show ?case by simp
next
  case (Seq r1 r2)
  then obtain mid where mid: "mid \<in> set (match r1 st)" "st' \<in> set (match r2 mid)" by auto
  from Seq.IH(1)[OF mid(1)] obtain w1 where "fst st = w1 @ fst mid" by blast
  moreover from Seq.IH(2)[OF mid(2)] obtain w2 where "fst mid = w2 @ fst st'" by blast
  ultimately have "fst st = (w1 @ w2) @ fst st'" by simp
  then show ?case by blast
next
  case (Alt r1 r2)
  from Alt.prems have "st' \<in> set (match r1 st) \<or> st' \<in> set (match r2 st)" by simp
  then show ?case using Alt.IH by blast
next
  case (Star greedy r)
  have step: "\<And>st st'. st' \<in> set (match r st) \<Longrightarrow> \<exists>w. fst st = w @ fst st'"
    using Star.IH by blast
  from Star.prems have "st' \<in> set (star_iter (length (fst st)) greedy (match r) st)" by simp
  then show ?case using step by (rule star_iter_suffix[rotated])
next
  case (Opt r)
  from Opt.prems have "st' \<in> set (match r st) \<or> st' = st" by auto
  then show ?case using Opt.IH by (metis append_Nil)
next
  case (Group k r)
  from Group.prems obtain mid where mid: "mid \<in> set (match r st)" "fst st' = fst mid" by auto
  from Group.IH[OF mid(1)] show ?case using mid(2) by simp
next
  case (Backref k)
  then show ?case
    by (cases "snd st k") (auto split: if_splits dest: startsWith_split)
qed

lemma match_length: "st' \<in> set (match r st) \<Longrightarrow> length (fst st') \<le> length (fst st)"
  using match_suffix[of st' r st] by auto

lemma consumes_progress:
  "consumes r \<Longrightarrow> st' \<in> set (match r st) \<Longrightarrow> length (fst st') < length (fst st)"
proof (induction r arbitrary: st st')
  case (Lit c)
  then show ?case by (cases "fst st") (auto split: if_splits)
next
  case (Cls p)
  then show ?case by (cases "fst st") (auto split: if_splits)
next
  case (Seq r1 r2)
  from Seq.prems(2) obtain mid where mid: "mid \<in> set (match r1 st)" "st' \<in> set (match r2 mid)"
    by auto
  have l1: "length (fst mid) \<le> length (fst st)" using mid(1) by (rule match_length)
  have l2: "length (fst st') \<le> length (fst mid)" using mid(2) by (rule match_length)
  from Seq.prems(1) consider "consumes r1" | "consumes r2" by auto
  then show ?case
  proof cases
    case 1
    then have "length (fst mid) < length (fst st)" using Seq.IH(1) mid(1) by blast
    with l2 show ?thesis by simp
  next
    case 2
    then have "length (fst st') < length (fst mid)" using Seq.IH(2) mid(2) by blast
    with l1 show ?thesis by simp
  qed
next
  case (Alt r1 r2)
  from Alt.prems(2) have "st' \<in> set (match r1 st) \<or> st' \<in> set (match r2 st)" by simp
  moreover from Alt.prems(1) have "consumes r1" "consumes r2" by simp_all
  ultimately show ?case using Alt.IH by blast
next
  case (Group k r)
  from Group.prems(2) obtain mid where mid: "mid \<in> set (match r st)" "fst st' = fst mid" by auto
  from Group.prems(1) have "consumes r" by simp
  then have "length (fst mid) < length (fst st)" using Group.IH mid(1) by blast
  then show ?case using mid(2) by simp
qed simp_all

lemma Str_consumes: "s \<noteq> [] \<Longrightarrow> consumes (Str s)"
  by (induction s rule: Str.induct) simp_all

lemma regexes_consume:
  "consumes importRegex" "consumes funcComponentRegex" "consumes jsxRegex"
  "consumes propRegex" "consumes inlineStyleRegex"
  by (simp_all add: importRegex_def funcComponentRegex_def jsxRegex_def propRegex_def
        inlineStyleRegex_def Plus_def re_w_def re_s_def)

text \<open>
  Hence the branch of \<open>exec_all\<close> for an empty match is never taken for the regular
  expressions of the validator.
\<close>

lemma exec_all_advances:
  assumes "consumes re" and "match re (s, Map.empty) = st # sts"
  shows "length (fst st) < length s"
  using consumes_progress[OF assms(1), of st "(s, Map.empty)"] assms(2) by simp

lemma star_iter_caps:
  assumes step: "\<And>st st'. st' \<in> set (step st) \<Longrightarrow> snd st' = snd st"
  shows "st' \<in> set (star_iter n greedy step st) \<Longrightarrow> snd st' = snd st"
proof (induction n arbitrary: st)
  case 0
  then show ?case by simp
next
  case (Suc n)
  show ?case
  proof (cases "st' = st")
    case True
    then show ?thesis by simp
  next
    case False
    with Suc.prems obtain mid where mid: "mid \<in> set (step st)" "st' \<in> set (star_iter n greedy step mid)"
      by (auto simp: Let_def split: if_splits)
    from step[OF mid(1)] Suc.IH[OF mid(2)] show ?thesis by simp
  qed
qed

lemma match_caps:
  "groups_free r \<Longrightarrow> st' \<in> set (match r st) \<Longrightarrow> snd st' = snd st"
proof (induction r arbitrary: st st')
  case (Lit c)
  then show ?case by (cases "fst st") (auto split: if_splits)
next
  case (Cls p)
  then show ?case by (cases "fst st") (auto split: if_splits)
next
  case (Seq r1 r2)
  from Seq.prems(2) obtain mid where mid: "mid \<in> set (match r1 st)" "st' \<in> set (match r2 mid)"
    by auto
  from Seq.prems(1) have "groups_free r1" "groups_free r2" by simp_all
  then have "snd mid = snd st" "snd st' = snd mid" using Seq.IH mid by blast+
  then show ?case by simp
next
  case (Alt r1 r2)
  from Alt.prems(2) have "st' \<in> set (match r1 st) \<or> st' \<in> set (match r2 st)" by simp
  moreover from Alt.prems(1) have "groups_free r1" "groups_free r2" by simp_all
  ultimately show ?case using Alt.IH by blast
next
  case (Star greedy r)
  from Star.prems(1) have "groups_free r" by simp
  then have step: "\<And>st st'. st' \<in> set (match r st) \<Longrightarrow> snd st' = snd st"
    using Star.IH by blast
  from Star.prems(2) have "st' \<in> set (star_iter (length (fst st)) greedy (match r) st)" by simp
  then show ?case using step by (rule star_iter_caps[rotated])
next
  case (Opt r)
  from Opt.prems(2) have "st' \<in> set (match r st) \<or> st' = st" by auto
  moreover from Opt.prems(1) have "groups_free r" by simp
  ultimately show ?case using Opt.IH by blast
next
  case (Backref k)
  then show ?case by (cases "snd st k") (auto split: if_splits)
qed simp_all

lemma match_Seq_elim:
  "st' \<in> set (match (Seq r1 r2) st)
     \<Longrightarrow> \<exists>mid. mid \<in> set (match r1 st) \<and> st' \<in> set (match r2 mid)"
  by auto

lemma match_Alt_elim:
  "st' \<in> set (match (Alt r1 r2) st) \<Longrightarrow> st' \<in> set (match r1 st) \<or> st' \<in> set (match r2 st)"
  by auto

lemma match_Star_elim:
  "st' \<in> set (match (Star greedy r) st)
     \<Longrightarrow> st' \<in> set (star_iter (length (fst st)) greedy (match r) st)"
  by simp

lemma match_Group_elim:
  "st' \<in> set (match (Group k r) st)
     \<Longrightarrow> \<exists>mid. mid \<in> set (match r st) \<and> fst st' = fst mid
            \<and> snd st' = (snd mid)(k \<mapsto> take (length (fst st) - length (fst mid)) (fst st))"
  by auto

lemma match_Cls_elim:
  "st' \<in> set (match (Cls p) st) \<Longrightarrow> \<exists>d. fst st = d # fst st' \<and> p d \<and> snd st' = snd st"
  by (cases "fst st") (auto split: if_splits)

lemma match_Lit_elim:
  "st' \<in> set (match (Lit c) st) \<Longrightarrow> fst st = c # fst st' \<and> snd st' = snd st"
  by (cases "fst st") (auto split: if_splits)

text \<open>What a run of one character class consumes.\<close>

lemma star_cls_consumed:
  "st' \<in> set (star_iter n greedy (match (Cls p)) st)
     \<Longrightarrow> \<exists>w. fst st = w @ fst st' \<and> (\<forall>c\<in>set w. p c)"
proof (induction n arbitrary: st)
  case 0
  then show ?case by simp
next
  case (Suc n)
  show ?case
  proof (cases "st' = st")
    case True
    then show ?thesis by simp
  next
    case False
    with Suc.prems obtain mid where mid: "mid \<in> set (match (Cls p) st)"
        "st' \<in> set (star_iter n greedy (match (Cls p)) mid)"
      by (auto simp: Let_def simp del: match.simps split: if_splits)
    from match_Cls_elim[OF mid(1)] obtain d where d: "fst st = d # fst mid" "p d"
      by blast
    from Suc.IH[OF mid(2)] obtain w where "fst mid = w @ fst st'" "\<forall>c\<in>set w. p c" by blast
    with d have "fst st = (d # w) @ fst st' \<and> (\<forall>c\<in>set (d # w). p c)" by simp
    then show ?thesis by blast
  qed
qed

lemma plus_cls_consumed:
  assumes "st' \<in> set (match (Plus greedy (Cls p)) st)"
  shows "\<exists>w. fst st = w @ fst st' \<and> w \<noteq> [] \<and> (\<forall>c\<in>set w. p c)"
proof -
  from assms have "st' \<in> set (match (Seq (Cls p) (Star greedy (Cls p))) st)"
    by (simp only: Plus_def)
  from match_Seq_elim[OF this] obtain mid where mid0: "mid \<in> set (match (Cls p) st)"
      "st' \<in> set (match (Star greedy (Cls p)) mid)"
    by blast
  note mid = mid0(1) match_Star_elim[OF mid0(2)]
  from match_Cls_elim[OF mid(1)] obtain d where d: "fst st = d # fst mid" "p d"
    by blast
  from star_cls_consumed[OF mid(2)] obtain w where "fst mid = w @ fst st'" "\<forall>c\<in>set w. p c"
    by blast
  with d have "fst st = (d # w) @ fst st' \<and> d # w \<noteq> [] \<and> (\<forall>c\<in>set (d # w). p c)" by simp
  then show ?thesis by blast
qed

lemma group_plus_cls_capture:
  assumes "st' \<in> set (match (Group k (Plus greedy (Cls p))) st)"
  shows "\<exists>w. snd st' k = Some w \<and> w \<noteq> [] \<and> (\<forall>c\<in>set w. p c)"
proof -
  from match_Group_elim[OF assms] obtain mid where mid: "mid \<in> set (match (Plus greedy (Cls p)) st)"
      "snd st' k = Some (take (length (fst st) - length (fst mid)) (fst st))"
    by auto
  from plus_cls_consumed[OF mid(1)] obtain w where w: "fst st = w @ fst mid" "w \<noteq> []"
      "\<forall>c\<in>set w. p c" by blast
  then have "take (length (fst st) - length (fst mid)) (fst st) = w" by simp
  with mid(2) w show ?thesis by simp
qed

lemma ends_with_consumed:
  "ends_with c r \<Longrightarrow> st' \<in> set (match r st) \<Longrightarrow> \<exists>u. fst st = u @ c # fst st'"
proof (induction r arbitrary: st st')
  case (Lit d)
  then show ?case by (cases "fst st") (auto split: if_splits)
next
  case (Seq r1 r2)
  from Seq.prems(2) obtain mid where mid: "mid \<in> set (match r1 st)" "st' \<in> set (match r2 mid)"
    by auto
  from match_suffix[OF mid(1)] obtain w where "fst st = w @ fst mid" by blast
  moreover from Seq.prems(1) have "ends_with c r2" by simp
  then obtain u where "fst mid = u @ c # fst st'" using Seq.IH(2) mid(2) by blast
  ultimately have "fst st = (w @ u) @ c # fst st'" by simp
  then show ?case by blast
next
  case (Alt r1 r2)
  from Alt.prems(2) have "st' \<in> set (match r1 st) \<or> st' \<in> set (match r2 st)" by simp
  moreover from Alt.prems(1) have "ends_with c r1" "ends_with c r2" by simp_all
  ultimately show ?case using Alt.IH by blast
next
  case (Group k r)
  from Group.prems(2) obtain mid where mid: "mid \<in> set (match r st)" "fst st' = fst mid" by auto
  from Group.prems(1) have "ends_with c r" by simp
  then obtain u where "fst st = u @ c # fst mid" using Group.IH mid(1) by blast
  then show ?case using mid(2) by auto
qed simp_all

text \<open>Every match reported by the loop is the first way the pattern matches somewhere.\<close>

lemma exec_all_elem:
  "(pre, matched, caps) \<in> set (exec_all re p s) \<Longrightarrow>
     \<exists>s' st'. st' \<in> set (match re (s', Map.empty)) \<and> caps = snd st'
             \<and> matched = take (length s' - length (fst st')) s'"
proof (induction re p s rule: exec_all.induct)
  case (1 re p s)
  show ?case
  proof (cases "match re (s, Map.empty)")
    case Nil
    show ?thesis
    proof (cases s)
      case Nil
      with \<open>match re (s, Map.empty) = []\<close> "1.prems" show ?thesis
        by (subst (asm) exec_all.simps) simp
    next
      case (Cons c cs)
      with \<open>match re (s, Map.empty) = []\<close> "1.prems"
      have "(pre, matched, caps) \<in> set (exec_all re (p @ [c]) cs)"
        by (subst (asm) exec_all.simps) simp
      then show ?thesis using "1.IH"(1)[OF \<open>match re (s, Map.empty) = []\<close> Cons] by blast
    qed
  next
    case (Cons st sts)
    let ?m = "take (length s - length (fst st)) s"
    have here: "st \<in> set (match re (s, Map.empty))" using Cons by simp
    show ?thesis
    proof (cases "length (fst st) < length s")
      case True
      with Cons "1.prems"
      have "(pre, matched, caps) = (p, ?m, snd st)
            \<or> (pre, matched, caps) \<in> set (exec_all re (p @ ?m) (fst st))"
        by (subst (asm) exec_all.simps) (simp add: Let_def)
      then show ?thesis
      proof
        assume "(pre, matched, caps) = (p, ?m, snd st)"
        then show ?thesis using here by blast
      next
        assume "(pre, matched, caps) \<in> set (exec_all re (p @ ?m) (fst st))"
        then show ?thesis using "1.IH"(2)[OF Cons refl True] by blast
      qed
    next
      case False
      with Cons "1.prems" have "(pre, matched, caps) = (p, ?m, snd st)"
        by (subst (asm) exec_all.simps) (simp add: Let_def)
      then show ?thesis using here by blast
    qed
  qed
qed

subsection \<open>What the tag pattern can yield\<close>

lemma jsx_match:
  assumes "st' \<in> set (match jsxRegex (s, Map.empty))"
  shows "(\<exists>w. snd st' 1 = Some w \<and> w \<noteq> [] \<and> (\<forall>c\<in>set w. is_word c))
       \<and> (\<exists>u. s = u @ CHR ''>'' # fst st')"
proof -
  define tail where "tail =
    Seq (Opt (Seq (Plus True re_s) (Star True (re_not ''>''))))
        (Alt (Seqs [Star True re_s, Lit CHR ''/'', Lit CHR ''>''])
             (Seqs [Lit CHR ''>'', Star False re_any, Lit CHR ''<'', Lit CHR ''/'', Backref 1,
                    Lit CHR ''>'']))"
  have shape: "jsxRegex = Seq (Lit CHR ''<'') (Seq (Group 1 (Plus True (Cls is_word))) tail)"
    by (simp add: jsxRegex_def tail_def re_w_def)
  have free: "groups_free tail"
    by (simp add: tail_def Plus_def re_s_def re_not_def re_any_def)
  have ends: "ends_with CHR ''>'' jsxRegex"
    by (simp add: jsxRegex_def)
  from assms obtain mid1 where m1: "mid1 \<in> set (match (Lit CHR ''<'') (s, Map.empty))"
      "st' \<in> set (match (Seq (Group 1 (Plus True (Cls is_word))) tail) mid1)"
    unfolding shape using match_Seq_elim by blast
  from match_Seq_elim[OF m1(2)] obtain mid2 where
      m2: "mid2 \<in> set (match (Group 1 (Plus True (Cls is_word))) mid1)"
      "st' \<in> set (match tail mid2)"
    by blast
  from group_plus_cls_capture[OF m2(1)] obtain w where
      "snd mid2 1 = Some w" "w \<noteq> []" "\<forall>c\<in>set w. is_word c" by blast
  moreover have "snd st' = snd mid2" using free m2(2) by (rule match_caps)
  ultimately have 1: "\<exists>w. snd st' 1 = Some w \<and> w \<noteq> [] \<and> (\<forall>c\<in>set w. is_word c)" by simp
  from ends_with_consumed[OF ends assms] have 2: "\<exists>u. s = u @ CHR ''>'' # fst st'" by simp
  from 1 2 show ?thesis by blast
qed

lemma extractJSX_shape:
  assumes "j \<in> set (extractJSX antdComponents src)"
  shows "tagName j \<noteq> [] \<and> (\<forall>c\<in>set (tagName j). is_word c) \<and> CHR ''>'' \<in> set (fullMatch j)"
proof -
  from assms obtain pre matched caps where
      el: "(pre, matched, caps) \<in> set (exec_all jsxRegex [] src)"
      and j: "tagName j = cap caps 1" "fullMatch j = matched"
    by (auto simp: extractJSX_def)
  from exec_all_elem[OF el] obtain s' st' where
      m: "st' \<in> set (match jsxRegex (s', Map.empty))" "caps = snd st'"
         "matched = take (length s' - length (fst st')) s'" by blast
  from jsx_match[OF m(1)] obtain w u where
      w: "snd st' 1 = Some w" "w \<noteq> []" "\<forall>c\<in>set w. is_word c"
      and u: "s' = u @ CHR ''>'' # fst st'" by blast
  have "cap caps 1 = w" using w(1) m(2) by (simp add: cap_def)
  moreover have "matched = u @ [CHR ''>'']" using m(3) u by simp
  ultimately show ?thesis using j w by simp
qed

lemma includes_single: "includes_str s [c] \<longleftrightarrow> c \<in> set s"
  by (induction s) (auto simp: startsWith_def)

lemma tagName_not_dotted:
  assumes "j \<in> set (extractJSX antdComponents src)"
  shows "tagName j \<noteq> ''Form.Item''"
proof
  assume "tagName j = ''Form.Item''"
  moreover have "\<forall>c\<in>set (tagName j). is_word c" using extractJSX_shape[OF assms] by blast
  ultimately have "is_word CHR ''.''" by simp
  then show False by (simp add: is_word_def)
qed

text \<open>The catalogue-usage rule reports nothing, whatever the text.\<close>

lemma antd_usage_rule_silent:
  "antd_usage_rule (parseCode antdComponents src) = ([], [], [])"
proof -
  have "\<forall>j\<in>set (extractJSX antdComponents src). tagName j \<noteq> ''Form.Item''"
    using tagName_not_dotted by blast
  then have "concat (map (\<lambda>j.
        if isAntdComponent j \<and> tagName j = ''Form.Item''
           \<and> \<not> list_ex (\<lambda>k. tagName k = ''Form'') (extractJSX antdComponents src)
        then [\<lparr>err_type = AntdUsage,
               err_message = ''Form.Item must be inside a Form component'',
               err_line = Some (jsx_line j), err_column = None, severity = SeverityError\<rparr>]
        else []) (extractJSX antdComponents src)) = []"
    by (induction "extractJSX antdComponents src") auto
  then show ?thesis by (simp add: antd_usage_rule_def parseCode_def)
qed

text \<open>The accessibility rule never reports a button, whatever the text.\<close>

lemma accessibility_rule_no_button:
  assumes "w \<in> set (fst (snd (accessibility_rule (parseCode antdComponents src))))"
  shows "warn_message w = ''Image missing alt text''"
proof -
  have gt: "\<forall>j\<in>set (extractJSX antdComponents src). includes_str (fullMatch j) ''>''"
    using extractJSX_shape by (simp add: includes_single)
  from assms obtain j where "j \<in> set (extractJSX antdComponents src)"
    "w \<in> set ((if tagName j = ''img'' \<and> \<not> includes_str (fullMatch j) ''alt=''
         then [\<lparr>warn_type = BestPractice, warn_message = ''Image missing alt text'',
                warn_line = Some (jsx_line j),
                warn_suggestion = Some ''Add alt attribute for accessibility''\<rparr>]
         else [])
        @ (if tagName j = ''Button'' \<and> \<not> includes_str (fullMatch j) ''aria-label''
              \<and> \<not> includes_str (fullMatch j) ''>''
           then [\<lparr>warn_type = BestPractice, warn_message = ''Button without accessible label'',
                  warn_line = Some (jsx_line j),
                  warn_suggestion = Some ''Add aria-label or text content''\<rparr>]
           else []))"
    by (auto simp: accessibility_rule_def parseCode_def)
  then show ?thesis using gt by (auto split: if_splits)
qed

subsection \<open>From the rules to the result of \<open>validate\<close>\<close>

text \<open>
  Whether a round of the loop completes or raises, the errors and warnings of the
  \<open>result\<close> object afterwards are those it had before or come from the rule.
\<close>

lemma run_rule_errors:
  assumes "run_rule eng parsed config result rule = Inr after
           \<or> run_rule eng parsed config result rule = Inl (message, after)"
    and "e \<in> set (vr_errors after)"
  shows "e \<in> set (vr_errors result) \<or> e \<in> set (fst (rule_validate rule parsed config))"
  using assms
  by (auto simp: run_rule_def push_spread_def Let_def split: if_splits prod.splits sum.splits)

lemma run_rule_warnings:
  assumes "run_rule eng parsed config result rule = Inr after
           \<or> run_rule eng parsed config result rule = Inl (message, after)"
    and "w \<in> set (vr_warnings after)"
  shows "w \<in> set (vr_warnings result)
         \<or> w \<in> set (fst (snd (rule_validate rule parsed config)))"
  using assms
  by (auto simp: run_rule_def push_spread_def Let_def split: if_splits prod.splits sum.splits)

lemma run_rules_errors:
  assumes "run_rules eng parsed config result rs = Inr after
           \<or> run_rules eng parsed config result rs = Inl (message, after)"
    and "e \<in> set (vr_errors after)"
  shows "e \<in> set (vr_errors result)
         \<or> (\<exists>rule\<in>set rs. e \<in> set (fst (rule_validate rule parsed config)))"
  using assms
proof (induction rs arbitrary: result)
  case Nil
  then show ?case by simp
next
  case (Cons rule rs)
  show ?case
  proof (cases "run_rule eng parsed config result rule")
    case (Inl failure)
    then have "run_rule eng parsed config result rule = Inl (message, after)"
      using Cons.prems(1) by simp
    then have "e \<in> set (vr_errors result) \<or> e \<in> set (fst (rule_validate rule parsed config))"
      using Cons.prems(2) run_rule_errors by blast
    then show ?thesis by auto
  next
    case (Inr result1)
    then have "run_rules eng parsed config result1 rs = Inr after
           \<or> run_rules eng parsed config result1 rs = Inl (message, after)"
      using Cons.prems(1) by simp
    from Cons.IH[OF this Cons.prems(2)]
    have "e \<in> set (vr_errors result1)
         \<or> (\<exists>rule\<in>set rs. e \<in> set (fst (rule_validate rule parsed config)))" .
    moreover have "e \<in> set (vr_errors result) \<or> e \<in> set (fst (rule_validate rule parsed config))"
      if "e \<in> set (vr_errors result1)"
      using Inr that run_rule_errors by blast
    ultimately show ?thesis by auto
  qed
qed

lemma run_rules_warnings:
  assumes "run_rules eng parsed config result rs = Inr after
           \<or> run_rules eng parsed config result rs = Inl (message, after)"
    and "w \<in> set (vr_warnings after)"
  shows "w \<in> set (vr_warnings result)
         \<or> (\<exists>rule\<in>set rs. w \<in> set (fst (snd (rule_validate rule parsed config))))"
  using assms
proof (induction rs arbitrary: result)
  case Nil
  then show ?case by simp
next
  case (Cons rule rs)
  show ?case
  proof (cases "run_rule eng parsed config result rule")
    case (Inl failure)
    then have "run_rule eng parsed config result rule = Inl (message, after)"
      using Cons.prems(1) by simp
    then have "w \<in> set (vr_warnings result)
               \<or> w \<in> set (fst (snd (rule_validate rule parsed config)))"
      using Cons.prems(2) run_rule_warnings by blast
    then show ?thesis by auto
  next
    case (Inr result1)
    then have "run_rules eng parsed config result1 rs = Inr after
           \<or> run_rules eng parsed config result1 rs = Inl (message, after)"
      using Cons.prems(1) by simp
    from Cons.IH[OF this Cons.prems(2)]
    have "w \<in> set (vr_warnings result1)
         \<or> (\<exists>rule\<in>set rs. w \<in> set (fst (snd (rule_validate rule parsed config))))" .
    moreover have "w \<in> set (vr_warnings result)
                   \<or> w \<in> set (fst (snd (rule_validate rule parsed config)))"
      if "w \<in> set (vr_warnings result1)"
      using Inr that run_rule_warnings by blast
    ultimately show ?thesis by auto
  qed
qed

text \<open>The two outcomes of \<open>validate\<close>.\<close>

lemma validate_completed:
  assumes "validate_try eng antdComponents src (merge_options options) initial_validation
             = Inr done"
  shows "validate eng antdComponents src options = done"
    and "\<exists>after. run_rules eng (parseCode antdComponents src) (merge_options options)
                    initial_validation initializeValidationRules = Inr after
                \<and> vr_errors done = vr_errors after \<and> vr_warnings done = vr_warnings after
                \<and> score done = calculateScore after
                \<and> isValid done
                    = (length (filter (\<lambda>e. severity e = SeverityError) (vr_errors after)) = 0)"
  using assms
  by (auto simp: validate_def validate_try_def Let_def split: sum.splits)

lemma validate_raised:
  assumes "validate_try eng antdComponents src (merge_options options) initial_validation
             = Inl (message, failed)"
  shows "validate eng antdComponents src options =
           failed\<lparr>vr_errors := vr_errors failed @
                     [\<lparr>err_type = Syntax, err_message = ''Failed to parse code: '' @ message,
                       err_line = None, err_column = None, severity = SeverityError\<rparr>],
                   isValid := False, score := 0\<rparr>"
    and "run_rules eng (parseCode antdComponents src) (merge_options options)
           initial_validation initializeValidationRules = Inl (message, failed)"
  using assms
  by (auto simp: validate_def validate_try_def Let_def split: sum.splits)

lemma validate_errors_from_rules:
  assumes "e \<in> set (vr_errors (validate eng antdComponents src options))"
  shows "err_type e = Syntax
         \<or> (\<exists>rule. e \<in> set (fst (rule_validate rule (parseCode antdComponents src)
                                     (merge_options options))))"
proof (cases "validate_try eng antdComponents src (merge_options options) initial_validation")
  case (Inr finished)
  from validate_completed[OF Inr] assms obtain after
    where "run_rules eng (parseCode antdComponents src) (merge_options options)
             initial_validation initializeValidationRules = Inr after"
      and "e \<in> set (vr_errors after)"
    by auto
  then have "e \<in> set (vr_errors initial_validation)
         \<or> (\<exists>rule\<in>set initializeValidationRules.
               e \<in> set (fst (rule_validate rule (parseCode antdComponents src)
                                (merge_options options))))"
    using run_rules_errors by blast
  then show ?thesis by (auto simp: initial_validation_def)
next
  case (Inl failure)
  obtain message failed where f: "failure = (message, failed)" by (cases failure)
  note v = validate_raised[OF Inl[unfolded f]]
  from assms have "err_type e = Syntax \<or> e \<in> set (vr_errors failed)"
    unfolding v(1) by auto
  moreover have "e \<in> set (vr_errors initial_validation)
         \<or> (\<exists>rule\<in>set initializeValidationRules.
               e \<in> set (fst (rule_validate rule (parseCode antdComponents src)
                                (merge_options options))))"
    if "e \<in> set (vr_errors failed)"
    using v(2) that run_rules_errors by blast
  ultimately show ?thesis by (auto simp: initial_validation_def)
qed

lemma validate_warnings_from_rules:
  assumes "w \<in> set (vr_warnings (validate eng antdComponents src options))"
  shows "\<exists>rule. w \<in> set (fst (snd (rule_validate rule (parseCode antdComponents src)
                                        (merge_options options))))"
proof (cases "validate_try eng antdComponents src (merge_options options) initial_validation")
  case (Inr finished)
  from validate_completed[OF Inr] assms obtain after
    where "run_rules eng (parseCode antdComponents src) (merge_options options)
             initial_validation initializeValidationRules = Inr after"
      and "w \<in> set (vr_warnings after)"
    by auto
  then have "w \<in> set (vr_warnings initial_validation)
         \<or> (\<exists>rule\<in>set initializeValidationRules.
               w \<in> set (fst (snd (rule_validate rule (parseCode antdComponents src)
                                     (merge_options options)))))"
    using run_rules_warnings by blast
  then show ?thesis by (auto simp: initial_validation_def)
next
  case (Inl failure)
  obtain message failed where f: "failure = (message, failed)" by (cases failure)
  note v = validate_raised[OF Inl[unfolded f]]
  from assms have "w \<in> set (vr_warnings failed)"
    unfolding v(1) by auto
  then have "w \<in> set (vr_warnings initial_validation)
         \<or> (\<exists>rule\<in>set initializeValidationRules.
               w \<in> set (fst (snd (rule_validate rule (parseCode antdComponents src)
                                     (merge_options options)))))"
    using v(2) run_rules_warnings by blast
  then show ?thesis by (auto simp: initial_validation_def)
qed

text \<open>
  For every engine, text, set of known component names and options, \<open>validate\<close> reports
  no diagnostic of kind \<open>antd-usage\<close>.
\<close>

lemma validate_never_antd_usage:
  assumes "e \<in> set (vr_errors (validate eng antdComponents src options))"
  shows "err_type e \<noteq> AntdUsage"
proof -
  from validate_errors_from_rules[OF assms] consider "err_type e = Syntax"
    | rule where "e \<in> set (fst (rule_validate rule (parseCode antdComponents src)
                                   (merge_options options)))"
    by blast
  then show ?thesis
  proof cases
    case 1
    then show ?thesis by simp
  next
    case r: (2 rule)
    show ?thesis
    proof (cases rule)
      case ImportValidationRule
      with r show ?thesis by (auto simp: import_rule_def Let_def split: if_splits)
    next
      case AntdUsageValidationRule
      with r show ?thesis by (simp add: antd_usage_rule_silent)
    next
      case PropValidationRule
      with r show ?thesis by (simp add: prop_rule_def)
    next
      case AccessibilityValidationRule
      with r show ?thesis by (simp add: accessibility_rule_def)
    next
      case PerformanceValidationRule
      with r show ?thesis by (simp add: performance_rule_def)
    next
      case BestPracticeValidationRule
      with r show ?thesis by (simp add: best_practice_rule_def)
    qed
  qed
qed

text \<open>
  For every engine, text, set of known component names and options, \<open>validate\<close> reports
  no warning about a button without an accessible label.
\<close>

lemma validate_never_button_label:
  assumes "w \<in> set (vr_warnings (validate eng antdComponents src options))"
  shows "warn_message w \<noteq> ''Button without accessible label''"
proof -
  from validate_warnings_from_rules[OF assms] obtain rule where
    r: "w \<in> set (fst (snd (rule_validate rule (parseCode antdComponents src)
                              (merge_options options))))"
    by blast
  then show ?thesis
  proof (cases rule)
    case ImportValidationRule
    with r show ?thesis by (auto simp: import_rule_def Let_def split: if_splits)
  next
    case AntdUsageValidationRule
    with r show ?thesis by (simp add: antd_usage_rule_silent)
  next
    case PropValidationRule
    with r show ?thesis by (auto simp: prop_rule_def split: if_splits)
  next
    case AccessibilityValidationRule
    with r have "warn_message w = ''Image missing alt text''"
      using accessibility_rule_no_button by simp
    then show ?thesis by simp
  next
    case PerformanceValidationRule
    with r show ?thesis by (auto simp: performance_rule_def split: if_splits)
  next
    case BestPracticeValidationRule
    with r show ?thesis by (auto simp: best_practice_rule_def split: if_splits)
  qed
qed

subsection \<open>A text with more findings than one call accepts\<close>

lemma split_on_no_delimiter: "d \<notin> set l \<Longrightarrow> split_on d l = [l]"
  by (induction l) (auto simp: Let_def)

lemma split_on_append:
  "d \<notin> set l \<Longrightarrow> split_on d (l @ d # rest) = l # split_on d rest"
  by (induction l) (auto simp: Let_def)

lemma split_on_join_replicate:
  assumes "d \<notin> set l"
  shows "split_on d (join [d] (replicate (Suc n) l)) = replicate (Suc n) l"
proof (induction n)
  case 0
  then show ?case using assms by (simp add: split_on_no_delimiter)
next
  case (Suc n)
  have j: "join [d] (replicate (Suc (Suc n)) l) = l @ d # join [d] (replicate (Suc n) l)"
    by simp
  have "split_on d (join [d] (replicate (Suc (Suc n)) l))
          = split_on d (l @ d # join [d] (replicate (Suc n) l))"
    by (simp only: j)
  also have "\<dots> = l # split_on d (join [d] (replicate (Suc n) l))"
    using assms by (rule split_on_append)
  also have "\<dots> = l # replicate (Suc n) l" by (simp only: Suc)
  finally show ?case by simp
qed

lemma many_handlers_lines:
  "split_on (CHR 0x0A) (many_handlers (Suc n)) = replicate (Suc n) handler_line"
proof -
  have "CHR 0x0A \<notin> set handler_line" by (simp add: handler_line_def)
  then show ?thesis unfolding many_handlers_def by (rule split_on_join_replicate)
qed

lemma flagged_lines:
  "length (concat (map (\<lambda>(index, line).
        if includes_str line ''() =>'' \<and> includes_str line ''onClick''
        then [\<lparr>warn_type = Performance, warn_message = ''Inline function in event handler'',
               warn_line = Some (index + 1),
               warn_suggestion = Some ''Move function outside render or use useCallback''\<rparr>]
        else []) (enumerate k (replicate n handler_line)))) = n"
proof (induction n arbitrary: k)
  case 0
  then show ?case by simp
next
  case (Suc n)
  have "includes_str handler_line ''() =>''" "includes_str handler_line ''onClick''"
    by code_simp+
  then show ?case using Suc by simp
qed

lemma performance_rule_many_handlers:
  "fst (performance_rule (parseCode antdComponents (many_handlers (Suc n)))) = []
   \<and> length (fst (snd (performance_rule (parseCode antdComponents (many_handlers (Suc n))))))
       = Suc n"
  by (simp add: performance_rule_def parseCode_def many_handlers_lines flagged_lines
        del: replicate.simps)

text \<open>
  With only the performance check of the optional checks enabled, the loop reaches the
  performance rule with the \<open>result\<close> object untouched, and pushing more warnings than the
  engine accepts raises.
\<close>

lemma many_handlers_raise:
  assumes "0 \<le> argument_limit eng" and "argument_limit eng < int n"
  shows "validate_try eng antdComponents (many_handlers n) (merge_options performance_only)
           initial_validation = Inl (range_error eng, initial_validation)"
proof -
  obtain k where n: "n = Suc k" using assms by (cases n) simp_all
  let ?parsed = "parseCode antdComponents (many_handlers (Suc k))"
  let ?config = "merge_options performance_only"
  have cfg: "\<not> checkImports ?config" "\<not> checkProps ?config" "\<not> checkAccessibility ?config"
    "checkPerformance ?config"
    by (simp_all add: merge_options_def performance_only_def)
  obtain warns where p: "performance_rule ?parsed = ([], warns, [])" "length warns = Suc k"
    using performance_rule_many_handlers[of antdComponents k]
    by (cases "performance_rule ?parsed") (auto simp: performance_rule_def)
  have 1: "run_rule eng ?parsed ?config initial_validation ImportValidationRule
             = Inr initial_validation"
    using cfg by (simp add: run_rule_def)
  have 2: "run_rule eng ?parsed ?config initial_validation AntdUsageValidationRule
             = Inr initial_validation"
    using assms(1)
    by (simp add: run_rule_def antd_usage_rule_silent push_spread_def initial_validation_def)
  have 3: "run_rule eng ?parsed ?config initial_validation PropValidationRule
             = Inr initial_validation"
    using cfg by (simp add: run_rule_def)
  have 4: "run_rule eng ?parsed ?config initial_validation AccessibilityValidationRule
             = Inr initial_validation"
    using cfg by (simp add: run_rule_def)
  have 5: "run_rule eng ?parsed ?config initial_validation PerformanceValidationRule
             = Inl (range_error eng, initial_validation)"
    using cfg assms p unfolding n
    by (simp add: run_rule_def push_spread_def initial_validation_def)
  have "run_rules eng ?parsed ?config initial_validation initializeValidationRules
          = Inl (range_error eng, initial_validation)"
    by (simp add: initializeValidationRules_def 1 2 3 4 5)
  then show ?thesis unfolding n by (simp add: validate_try_def)
qed

text \<open>
  The body of the \<open>try\<close> completes whenever no rule returns more findings of one kind
  than the engine accepts in one call.
\<close>

lemma run_rule_completes:
  assumes "int (length (fst (rule_validate rule parsed config))) \<le> argument_limit eng"
    and "int (length (fst (snd (rule_validate rule parsed config)))) \<le> argument_limit eng"
    and "int (length (snd (snd (rule_validate rule parsed config)))) \<le> argument_limit eng"
  shows "\<exists>after. run_rule eng parsed config result rule = Inr after"
  using assms
  by (cases "rule_validate rule parsed config")
     (auto simp: run_rule_def push_spread_def Let_def)

lemma run_rules_complete:
  assumes "\<forall>rule. int (length (fst (rule_validate rule parsed config))) \<le> argument_limit eng
               \<and> int (length (fst (snd (rule_validate rule parsed config))))
                     \<le> argument_limit eng
               \<and> int (length (snd (snd (rule_validate rule parsed config))))
                     \<le> argument_limit eng"
  shows "\<exists>after. run_rules eng parsed config result rs = Inr after"
proof (induction rs arbitrary: result)
  case Nil
  then show ?case by simp
next
  case (Cons rule rs)
  obtain result1 where "run_rule eng parsed config result rule = Inr result1"
    using run_rule_completes[of rule parsed config eng result] assms by blast
  then show ?case using Cons.IH[of result1] by simp
qed

lemma validate_try_completes:
  assumes "\<forall>rule. int (length (fst (rule_validate rule (parseCode antdComponents src) config)))
                    \<le> argument_limit eng
               \<and> int (length (fst (snd (rule_validate rule (parseCode antdComponents src)
                                             config))))
                    \<le> argument_limit eng
               \<and> int (length (snd (snd (rule_validate rule (parseCode antdComponents src)
                                             config))))
                    \<le> argument_limit eng"
  shows "\<exists>finished. validate_try eng antdComponents src config result = Inr finished"
proof -
  obtain after where "run_rules eng (parseCode antdComponents src) config result
                        initializeValidationRules = Inr after"
    using run_rules_complete[OF assms] by blast
  then show ?thesis by (simp add: validate_try_def Let_def)
qed

subsection \<open>Static validator: claims\<close>

lemma calculateScore_update [simp]:
  "calculateScore (result\<lparr>score := s\<rparr>) = calculateScore result"
  "calculateScore (result\<lparr>isValid := v\<rparr>) = calculateScore result"
  by (simp_all add: calculateScore_def)

text \<open>
  The statement of C3 for every validation outcome fails on a text of 200000 lines that each
  bind an inline function to a click handler, checked with only the performance check of
  the optional checks enabled: pushing the 200000 warnings raises, the handler of
  \<open>validate\<close> takes over, and the outcome has one error-severity diagnostic, no warning
  and the score 0, where the formula gives 80.
\<close>

theorem score_formula_counterexample:
  "vr_errors (validate sample_engine commonComponents (many_handlers 200000) performance_only)
     = [\<lparr>err_type = Syntax,
         err_message = ''Failed to parse code: Maximum call stack size exceeded'',
         err_line = None, err_column = None, severity = SeverityError\<rparr>]
   \<and> vr_warnings (validate sample_engine commonComponents (many_handlers 200000)
                    performance_only) = []
   \<and> score (validate sample_engine commonComponents (many_handlers 200000) performance_only) = 0
   \<and> calculateScore (validate sample_engine commonComponents (many_handlers 200000)
                       performance_only) = 80"
proof -
  have "validate_try sample_engine commonComponents (many_handlers 200000)
          (merge_options performance_only) initial_validation
        = Inl (range_error sample_engine, initial_validation)"
    by (rule many_handlers_raise) (simp_all add: sample_engine_def)
  then have "validate sample_engine commonComponents (many_handlers 200000) performance_only
        = initial_validation\<lparr>vr_errors := vr_errors initial_validation @
                     [\<lparr>err_type = Syntax,
                       err_message = ''Failed to parse code: '' @ range_error sample_engine,
                       err_line = None, err_column = None, severity = SeverityError\<rparr>],
                   isValid := False, score := 0\<rparr>"
    by (rule validate_raised(1))
  then show ?thesis
    by (simp add: initial_validation_def sample_engine_def calculateScore_def)
qed

text \<open>
  C3, amended. For every result record, \<open>calculateScore\<close> is 100 minus 20 for each
  error-severity diagnostic, minus 5 for each warning-severity entry of the error list,
  minus 2 for each warning, and not below 0; so it is 100 when there are no diagnostics, 0
  when there are five or more error-severity diagnostics, and always between 0 and 100.
  When the body of the \<open>try\<close> in \<open>validate\<close> completes, the score that \<open>validate\<close>
  returns is \<open>calculateScore\<close> of its result. When the body raises, the outcome is the
  \<open>result\<close> object as it was at that moment with one more error-severity diagnostic of
  kind \<open>syntax\<close>, and its score is 0. In both cases \<open>isValid\<close> holds exactly when the
  outcome has no error-severity diagnostic, whatever the score.
\<close>

theorem quality_score:
  "calculateScore result =
     max 0 (100 - 20 * int (length (filter (\<lambda>e. severity e = SeverityError) (vr_errors result)))
                - 5 * int (length (filter (\<lambda>e. severity e = SeverityWarning) (vr_errors result)))
                - 2 * int (length (vr_warnings result)))
   \<and> (vr_errors result = [] \<and> vr_warnings result = [] \<longrightarrow> calculateScore result = 100)
   \<and> (5 \<le> length (filter (\<lambda>e. severity e = SeverityError) (vr_errors result))
        \<longrightarrow> calculateScore result = 0)
   \<and> 0 \<le> calculateScore result \<and> calculateScore result \<le> 100
   \<and> (\<forall>finished.
        validate_try eng antdComponents src (merge_options options) initial_validation
          = Inr finished \<longrightarrow>
        validate eng antdComponents src options = finished
        \<and> score (validate eng antdComponents src options)
            = calculateScore (validate eng antdComponents src options))
   \<and> (\<forall>message failed.
        validate_try eng antdComponents src (merge_options options) initial_validation
          = Inl (message, failed) \<longrightarrow>
        validate eng antdComponents src options =
          failed\<lparr>vr_errors := vr_errors failed @
                    [\<lparr>err_type = Syntax, err_message = ''Failed to parse code: '' @ message,
                      err_line = None, err_column = None, severity = SeverityError\<rparr>],
                  isValid := False, score := 0\<rparr>
        \<and> score (validate eng antdComponents src options) = 0)
   \<and> isValid (validate eng antdComponents src options)
        = (length (filter (\<lambda>e. severity e = SeverityError)
                     (vr_errors (validate eng antdComponents src options))) = 0)"
proof (intro conjI impI allI)
  show "calculateScore result =
     max 0 (100 - 20 * int (length (filter (\<lambda>e. severity e = SeverityError) (vr_errors result)))
                - 5 * int (length (filter (\<lambda>e. severity e = SeverityWarning) (vr_errors result)))
                - 2 * int (length (vr_warnings result)))"
    by (simp add: calculateScore_def Let_def)
  show "calculateScore result = 100" if "vr_errors result = [] \<and> vr_warnings result = []"
    using that by (simp add: calculateScore_def Let_def)
  show "calculateScore result = 0"
    if "5 \<le> length (filter (\<lambda>e. severity e = SeverityError) (vr_errors result))"
    using that by (simp add: calculateScore_def Let_def)
  show "0 \<le> calculateScore result" by (simp add: calculateScore_def Let_def)
  show "calculateScore result \<le> 100" by (simp add: calculateScore_def Let_def)
next
  fix finished
  assume c: "validate_try eng antdComponents src (merge_options options) initial_validation
               = Inr finished"
  show "validate eng antdComponents src options = finished"
    using c by (rule validate_completed(1))
  show "score (validate eng antdComponents src options)
            = calculateScore (validate eng antdComponents src options)"
    using c by (auto simp: validate_def validate_try_def Let_def split: sum.splits)
next
  fix message failed
  assume r: "validate_try eng antdComponents src (merge_options options) initial_validation
               = Inl (message, failed)"
  show v: "validate eng antdComponents src options =
          failed\<lparr>vr_errors := vr_errors failed @
                    [\<lparr>err_type = Syntax, err_message = ''Failed to parse code: '' @ message,
                      err_line = None, err_column = None, severity = SeverityError\<rparr>],
                  isValid := False, score := 0\<rparr>"
    using r by (rule validate_raised(1))
  show "score (validate eng antdComponents src options) = 0"
    by (simp add: v)
next
  show "isValid (validate eng antdComponents src options)
        = (length (filter (\<lambda>e. severity e = SeverityError)
                     (vr_errors (validate eng antdComponents src options))) = 0)"
    by (auto simp: validate_def validate_try_def Let_def split: sum.splits)
qed

text \<open>
  The witness takes the empty text (no diagnostics, score 100, valid), a record with five
  error-severity diagnostics (score 0), the text \<open><Button />\<close> (one error-severity
  diagnostic, score 80, not valid), and the text of 200000 handler lines, on which the body
  raises (score 0, not valid).
\<close>

theorem quality_score_witness:
  "vr_errors (validate sample_engine commonComponents [] default_options) = []
   \<and> vr_warnings (validate sample_engine commonComponents [] default_options) = []
   \<and> score (validate sample_engine commonComponents [] default_options) = 100
   \<and> isValid (validate sample_engine commonComponents [] default_options)
   \<and> 5 \<le> length (filter (\<lambda>e. severity e = SeverityError) (vr_errors five_errors))
   \<and> calculateScore five_errors = 0
   \<and> validate_try sample_engine commonComponents ''<Button />'' (merge_options default_options)
        initial_validation
      = Inr (validate sample_engine commonComponents ''<Button />'' default_options)
   \<and> length (filter (\<lambda>e. severity e = SeverityError)
         (vr_errors (validate sample_engine commonComponents ''<Button />'' default_options))) = 1
   \<and> score (validate sample_engine commonComponents ''<Button />'' default_options) = 80
   \<and> \<not> isValid (validate sample_engine commonComponents ''<Button />'' default_options)
   \<and> validate_try sample_engine commonComponents (many_handlers 200000)
        (merge_options performance_only) initial_validation
      = Inl (''Maximum call stack size exceeded'', initial_validation)
   \<and> score (validate sample_engine commonComponents (many_handlers 200000) performance_only) = 0
   \<and> \<not> isValid (validate sample_engine commonComponents (many_handlers 200000)
                   performance_only)"
proof -
  let ?v0 = "validate sample_engine commonComponents [] default_options"
  let ?v1 = "validate sample_engine commonComponents ''<Button />'' default_options"
  let ?v2 = "validate sample_engine commonComponents (many_handlers 200000) performance_only"
  have e0: "vr_errors ?v0 = []" by code_simp
  have w0: "vr_warnings ?v0 = []" by code_simp
  have e5: "5 \<le> length (filter (\<lambda>e. severity e = SeverityError) (vr_errors five_errors))"
    by (simp add: five_errors_def)
  have t1: "validate_try sample_engine commonComponents ''<Button />''
              (merge_options default_options) initial_validation = Inr ?v1"
    by code_simp
  have e1: "length (filter (\<lambda>e. severity e = SeverityError) (vr_errors ?v1)) = 1" by code_simp
  have e1w: "length (filter (\<lambda>e. severity e = SeverityWarning) (vr_errors ?v1)) = 0" by code_simp
  have w1: "vr_warnings ?v1 = []" by code_simp
  have t2: "validate_try sample_engine commonComponents (many_handlers 200000)
              (merge_options performance_only) initial_validation
            = Inl (''Maximum call stack size exceeded'', initial_validation)"
    using many_handlers_raise[of sample_engine 200000 commonComponents]
    by (simp add: sample_engine_def)
  note q0 = quality_score[of ?v0 sample_engine commonComponents "[]" default_options]
  note q5 = quality_score[of five_errors sample_engine commonComponents "[]" default_options]
  note q1 = quality_score[of ?v1 sample_engine commonComponents "''<Button />''" default_options]
  note q2 = quality_score[of ?v2 sample_engine commonComponents "many_handlers 200000"
              performance_only]
  have s0: "score ?v0 = 100"
  proof -
    have "calculateScore ?v0 = 100" using q0 e0 w0 by blast
    moreover have "validate_try sample_engine commonComponents [] (merge_options default_options)
                     initial_validation = Inr ?v0"
      by code_simp
    ultimately show ?thesis using q0 by metis
  qed
  have v0: "isValid ?v0" using q0 e0 by simp
  have s5: "calculateScore five_errors = 0" using q5 e5 by blast
  have s1: "score ?v1 = 80"
  proof -
    have "score ?v1 = calculateScore ?v1" using q1 t1 by blast
    moreover have "calculateScore ?v1 = max 0 (100 - 20 * int 1 - 5 * int 0 - 2 * int 0)"
      using q1 e1 e1w w1 by simp
    ultimately show ?thesis by simp
  qed
  have v1: "\<not> isValid ?v1" using q1 e1 by simp
  have s2: "score ?v2 = 0" using q2 t2 by blast
  have v2: "\<not> isValid ?v2"
  proof -
    have "?v2 = initial_validation\<lparr>vr_errors := vr_errors initial_validation @
                    [\<lparr>err_type = Syntax,
                      err_message = ''Failed to parse code: '' @ ''Maximum call stack size exceeded'',
                      err_line = None, err_column = None, severity = SeverityError\<rparr>],
                  isValid := False, score := 0\<rparr>"
      using q2 t2 by blast
    then show ?thesis by simp
  qed
  show ?thesis using e0 w0 s0 v0 e5 s5 t1 e1 s1 v1 t2 s2 v2 by (intro conjI) assumption+
qed

text \<open>
  C4. On a text whose only tags are a \<open>Form.Item\<close> element around an \<open>Input\<close>, with no
  \<open>Form\<close> tag, \<open>validate\<close> reports no diagnostic of kind \<open>antd-usage\<close>, even when
  \<open>Form.Item\<close> is among the known component names: the tag pattern reads a tag name as a
  run of word characters, so it never yields the dotted name that the rule compares with.
\<close>

theorem form_item_not_flagged:
  "filter (\<lambda>e. err_type e = AntdUsage)
     (vr_errors (validate sample_engine (''Form.Item'' # commonComponents)
                   ''<Form.Item><Input /></Form.Item>'' default_options)) = []
   \<and> map tagName (extractJSX (''Form.Item'' # commonComponents)
                   ''<Form.Item><Input /></Form.Item>'') = [''Input'']"
  by code_simp

text \<open>
  C9. With the accessibility check enabled, \<open>validate\<close> reports no warning for a
  self-closing \<open>Button\<close> tag with neither an \<open>aria-label\<close> attribute nor text content:
  the rule requires the matched text to contain no \<open>>\<close>, and every matched tag ends with
  one. An \<open>img\<close> tag without \<open>alt\<close> nested in another element is not reported either,
  since the enclosing element is extracted as one match.
\<close>

theorem button_label_not_flagged:
  "checkAccessibility (merge_options default_options)
   \<and> map tagName (extractJSX commonComponents ''<Button />'') = [''Button'']
   \<and> \<not> includes_str ''<Button />'' ''aria-label''
   \<and> vr_warnings (validate sample_engine commonComponents ''<Button />'' default_options) = []
   \<and> map tagName (extractJSX commonComponents nested_image) = [''div'']
   \<and> vr_warnings (validate sample_engine commonComponents nested_image default_options) = []"
  by code_simp

end
